theory Spec2Isabelle
  imports Complex_Main "HOL-Library.AList" "HOL-Library.Sublist"
begin

section \<open>Data model\<close>

text \<open>
  A Python \<^verbatim>\<open>dict\<close> is an association list in insertion order with pairwise distinct
  keys: \<open>AList.update\<close> overwrites the value of a present key in place and appends an
  absent key at the end, as assignment to \<^verbatim>\<open>d[k]\<close> does. The weights of a proportion map
  are Python floats in the source; the model computes with exact rationals.
\<close>

type_synonym proportion_map = "(string \<times> rat) list"

text \<open>An item of \<^verbatim>\<open>fractional_distribution\<close> in \<^verbatim>\<open>calculate_question_distribution\<close>.\<close>

record frac_item =
  fi_question_type :: string
  fi_difficulty :: string
  fi_blooms_level :: string
  fi_exact_count :: rat
  fi_count :: int

text \<open>An item of the returned \<^verbatim>\<open>distribution\<close>.\<close>

record config =
  question_type :: string
  difficulty :: string
  blooms_level :: string
  count :: int

type_synonym distribution = "(string \<times> config) list"

section \<open>utils/helpers.py: calculate\_question\_distribution\<close>

text \<open>\<^verbatim>\<open>int(x)\<close> on a float truncates towards zero.\<close>

definition py_int :: "rat \<Rightarrow> int" where
  "py_int x = (if 0 \<le> x then \<lfloor>x\<rfloor> else \<lceil>x\<rceil>)"

text \<open>The key \<^verbatim>\<open>f"{q_type}_{difficulty}_{blooms}"\<close>.\<close>

definition combo_key :: "string \<Rightarrow> string \<Rightarrow> string \<Rightarrow> string" where
  "combo_key q d b = q @ ''_'' @ d @ ''_'' @ b"

text \<open>
  The three nested \<^verbatim>\<open>for\<close> loops over \<^verbatim>\<open>.items()\<close>: question type outermost, difficulty in
  the middle, Bloom's level innermost.
\<close>

definition combos ::
  "proportion_map \<Rightarrow> proportion_map \<Rightarrow> proportion_map
     \<Rightarrow> ((string \<times> rat) \<times> (string \<times> rat) \<times> (string \<times> rat)) list" where
  "combos qd dd bd =
     concat (map (\<lambda>q. concat (map (\<lambda>d. map (\<lambda>b. (q, d, b)) bd) dd)) qd)"

definition exact_of :: "int \<Rightarrow> (string \<times> rat) \<times> (string \<times> rat) \<times> (string \<times> rat) \<Rightarrow> rat" where
  "exact_of total_questions c =
     (case c of ((q, q_ratio), (d, d_ratio), (b, b_ratio)) \<Rightarrow>
        of_int total_questions * q_ratio * d_ratio * b_ratio)"

definition key_of :: "(string \<times> rat) \<times> (string \<times> rat) \<times> (string \<times> rat) \<Rightarrow> string" where
  "key_of c = (case c of ((q, _), (d, _), (b, _)) \<Rightarrow> combo_key q d b)"

definition item_of :: "int \<Rightarrow> (string \<times> rat) \<times> (string \<times> rat) \<times> (string \<times> rat) \<Rightarrow> frac_item" where
  "item_of total_questions c =
     (case c of ((q, _), (d, _), (b, _)) \<Rightarrow>
        \<lparr> fi_question_type = q, fi_difficulty = d, fi_blooms_level = b,
          fi_exact_count = exact_of total_questions c, fi_count = py_int (exact_of total_questions c) \<rparr>)"

text \<open>The loop body \<^verbatim>\<open>fractional_distribution[key] = {...}\<close>, run over the combinations.\<close>

definition fractional_distribution ::
  "int \<Rightarrow> proportion_map \<Rightarrow> proportion_map \<Rightarrow> proportion_map \<Rightarrow> (string \<times> frac_item) list" where
  "fractional_distribution total_questions qd dd bd =
     foldl (\<lambda>fd c. AList.update (key_of c) (item_of total_questions c) fd) [] (combos qd dd bd)"

text \<open>\<^verbatim>\<open>remainder = total_questions - sum(item['count'] ...)\<close>; it may be negative.\<close>

definition remainder_of :: "int \<Rightarrow> (string \<times> frac_item) list \<Rightarrow> int" where
  "remainder_of total_questions fd = total_questions - sum_list (map (\<lambda>kv. fi_count (snd kv)) fd)"

text \<open>
  \<^verbatim>\<open>sorted(keys, key=exact_count - count, reverse=True)\<close>. Python's sort is stable and
  \<^verbatim>\<open>reverse=True\<close> keeps the original order of elements with equal keys, so it is the
  stable ascending sort on the negated key. Every key reads the sort key of its own item,
  so the items are sorted and their keys projected.
\<close>

definition frac_part :: "frac_item \<Rightarrow> rat" where
  "frac_part it = fi_exact_count it - of_int (fi_count it)"

definition sorted_keys :: "(string \<times> frac_item) list \<Rightarrow> string list" where
  "sorted_keys fd = map fst (sort_key (\<lambda>kv. - frac_part (snd kv)) fd)"

text \<open>
  \<^verbatim>\<open>for i in range(remainder): if i < len(sorted_keys): fd[sorted_keys[i]]['count'] += 1\<close>.
  \<^verbatim>\<open>range\<close> of a negative number is empty.
\<close>

definition add_one :: "frac_item \<Rightarrow> frac_item" where
  "add_one it = it\<lparr> fi_count := fi_count it + 1 \<rparr>"

definition distribute_remainder ::
  "int \<Rightarrow> string list \<Rightarrow> (string \<times> frac_item) list \<Rightarrow> (string \<times> frac_item) list" where
  "distribute_remainder remainder sk fd =
     foldl (\<lambda>fd i. if i < length sk then AList.map_entry (sk ! i) add_one fd else fd)
       fd [0 ..< nat remainder]"

text \<open>The last loop: items with a positive count are copied, without the exact count.\<close>

definition clean :: "frac_item \<Rightarrow> config" where
  "clean it = \<lparr> question_type = fi_question_type it, difficulty = fi_difficulty it,
                blooms_level = fi_blooms_level it, count = fi_count it \<rparr>"

definition remove_zero :: "(string \<times> frac_item) list \<Rightarrow> distribution" where
  "remove_zero fd =
     foldl (\<lambda>distr kv. if fi_count (snd kv) > 0 then AList.update (fst kv) (clean (snd kv)) distr
                       else distr) [] fd"

definition awarded_distribution ::
  "int \<Rightarrow> proportion_map \<Rightarrow> proportion_map \<Rightarrow> proportion_map \<Rightarrow> (string \<times> frac_item) list" where
  "awarded_distribution total_questions qd dd bd =
     (let fd = fractional_distribution total_questions qd dd bd
      in distribute_remainder (remainder_of total_questions fd) (sorted_keys fd) fd)"

definition calculate_question_distribution ::
  "int \<Rightarrow> proportion_map \<Rightarrow> proportion_map \<Rightarrow> proportion_map \<Rightarrow> distribution" where
  "calculate_question_distribution total_questions qd dd bd =
     remove_zero (awarded_distribution total_questions qd dd bd)"

text \<open>The sum of the counts of an allocation.\<close>

definition total_count :: "distribution \<Rightarrow> int" where
  "total_count distr = sum_list (map (\<lambda>kv. count (snd kv)) distr)"

section \<open>Quantities and predicates used in the statements\<close>

text \<open>The keys that receive an extra unit: the first \<^verbatim>\<open>remainder\<close> sorted keys.\<close>

definition awarded_keys :: "int \<Rightarrow> (string \<times> frac_item) list \<Rightarrow> string list" where
  "awarded_keys t fd = take (nat (remainder_of t fd)) (sorted_keys fd)"

text \<open>Every weight of a proportion map is non-negative.\<close>

definition nonneg_weights :: "proportion_map \<Rightarrow> bool" where
  "nonneg_weights m = list_all (\<lambda>kv. 0 \<le> snd kv) m"

text \<open>The sum of the weights of a proportion map.\<close>

definition weight_sum :: "proportion_map \<Rightarrow> rat" where
  "weight_sum m = sum_list (map snd m)"

text \<open>The sum of the floors, \<^verbatim>\<open>current_total\<close> in the source.\<close>

definition current_total :: "int \<Rightarrow> proportion_map \<Rightarrow> proportion_map \<Rightarrow> proportion_map \<Rightarrow> int" where
  "current_total t qd dd bd =
     sum_list (map (\<lambda>kv. fi_count (snd kv)) (fractional_distribution t qd dd bd))"

text \<open>Every weight of a proportion map is zero.\<close>

definition all_zero :: "proportion_map \<Rightarrow> bool" where
  "all_zero m = list_all (\<lambda>kv. snd kv = 0) m"



section \<open>Python strings\<close>

text \<open>
  A \<^verbatim>\<open>str\<close> is a list of characters, each a code point below 256. \<^verbatim>\<open>str.isspace\<close> and
  \<^verbatim>\<open>str.isdigit\<close> on these code points:
\<close>

definition is_space :: "char \<Rightarrow> bool" where
  "is_space c = (c \<in> set [CHR 0x09, CHR 0x0A, CHR 0x0B, CHR 0x0C, CHR 0x0D,
                            CHR 0x1C, CHR 0x1D, CHR 0x1E, CHR 0x1F, CHR 0x20,
                            CHR 0x85, CHR 0xA0])"

definition is_digit :: "char \<Rightarrow> bool" where
  "is_digit c = (c \<in> set ''0123456789'' \<or> c \<in> set [CHR 0xB2, CHR 0xB3, CHR 0xB9])"

text \<open>\<^verbatim>\<open>s.strip()\<close>: leading and trailing whitespace removed.\<close>

definition strip :: "string \<Rightarrow> string" where
  "strip s = rev (dropWhile is_space (rev (dropWhile is_space s)))"

text \<open>\<^verbatim>\<open>sub in s\<close>: \<open>sub\<close> occurs in \<open>s\<close> as a contiguous substring.\<close>

fun contains :: "string \<Rightarrow> string \<Rightarrow> bool" where
  "contains sub [] = (sub = [])"
| "contains sub (c # cs) = (prefix sub (c # cs) \<or> contains sub cs)"

text \<open>
  \<^verbatim>\<open>s.split(sep)\<close>: the pieces between the non-overlapping occurrences of \<open>sep\<close>, found from
  the left. The source calls it with non-empty literal separators only; on the empty
  separator, where Python raises, the model returns the text unsplit.
\<close>

fun py_split :: "string \<Rightarrow> string \<Rightarrow> string list" where
  "py_split sep [] = [[]]"
| "py_split sep (c # cs) =
     (if sep \<noteq> [] \<and> prefix sep (c # cs)
      then [] # py_split sep (drop (length sep) (c # cs))
      else (case py_split sep cs of
              [] \<Rightarrow> [[c]]
            | p # ps \<Rightarrow> (c # p) # ps))"

text \<open>\<^verbatim>\<open>s.split(sep, maxsplit)\<close>: at most \<open>maxsplit\<close> splits, the rest of the text left whole.\<close>

fun py_split_max :: "string \<Rightarrow> nat \<Rightarrow> string \<Rightarrow> string list" where
  "py_split_max sep 0 s = [s]"
| "py_split_max sep (Suc n) [] = [[]]"
| "py_split_max sep (Suc n) (c # cs) =
     (if sep \<noteq> [] \<and> prefix sep (c # cs)
      then [] # py_split_max sep n (drop (length sep) (c # cs))
      else (case py_split_max sep (Suc n) cs of
              [] \<Rightarrow> [[c]]
            | p # ps \<Rightarrow> (c # p) # ps))"

section \<open>Exceptions\<close>

text \<open>
  The exceptions the modelled code raises: \<^verbatim>\<open>raise ValueError(msg)\<close>, \<^verbatim>\<open>raise Exception(msg)\<close>
  (also what the completion service and the artifact sink raise, with their message), the
  \<^verbatim>\<open>IndexError\<close> of a list index out of range and the \<^verbatim>\<open>ZeroDivisionError\<close> of a division. A call that may raise returns a sum, \<open>Inl\<close>
  the exception.
\<close>

datatype py_exception = ValueError string | IndexError | ZeroDivisionError | Exception string

text \<open>\<^verbatim>\<open>str(e)\<close>.\<close>

fun str_of :: "py_exception \<Rightarrow> string" where
  "str_of (ValueError msg) = msg"
| "str_of IndexError = ''list index out of range''"
| "str_of ZeroDivisionError = ''division by zero''"
| "str_of (Exception msg) = msg"

text \<open>Sequencing of calls that may raise: the first exception ends the computation.\<close>

definition bind :: "py_exception + 'a \<Rightarrow> ('a \<Rightarrow> py_exception + 'b) \<Rightarrow> py_exception + 'b" where
  "bind m f = (case m of Inl e \<Rightarrow> Inl e | Inr x \<Rightarrow> f x)"

text \<open>\<^verbatim>\<open>xs[i]\<close> for a non-negative index.\<close>

definition idx :: "'a list \<Rightarrow> nat \<Rightarrow> py_exception + 'a" where
  "idx xs i = (if i < length xs then Inr (xs ! i) else Inl IndexError)"

section \<open>utils/helpers.py: create\_question\_sequence\<close>

text \<open>Each entry's pair is appended \<^verbatim>\<open>count\<close> times; \<^verbatim>\<open>range\<close> of a negative count is empty.\<close>

definition create_question_sequence :: "distribution \<Rightarrow> (string \<times> string) list" where
  "create_question_sequence question_breakdown =
     concat (map (\<lambda>kv. replicate (nat (count (snd kv))) (difficulty (snd kv), blooms_level (snd kv)))
                 question_breakdown)"

section \<open>The response parsers\<close>

text \<open>\<^verbatim>\<open>[b.strip() for b in text.split(delim) if b.strip()]\<close>: the candidate blocks.\<close>

definition surviving_blocks :: "string \<Rightarrow> string \<Rightarrow> string list" where
  "surviving_blocks delim response_text =
     map strip (filter (\<lambda>b. strip b \<noteq> []) (py_split delim response_text))"

text \<open>
  The loop over the blocks, the same in the three parsers: \<open>extract\<close> fills the fields of
  one block from its text and its fresh identifier (\<open>uuid n\<close> stands for the \<open>n\<close>-th call of
  \<^verbatim>\<open>uuid.uuid4()\<close>), \<open>assign\<close> writes the next pair of the sequence while
  \<^verbatim>\<open>question_index < len(question_sequence)\<close>. The record constructor validates the types
  of the fields, which are strings and lists of strings by construction, so its
  \<^verbatim>\<open>except\<close> branch is never taken and every block yields a record.
\<close>

fun parse_blocks ::
  "(string \<Rightarrow> string \<Rightarrow> py_exception + 'q) \<Rightarrow> (string \<times> string \<Rightarrow> 'q \<Rightarrow> 'q) \<Rightarrow> (nat \<Rightarrow> string)
     \<Rightarrow> (string \<times> string) list \<Rightarrow> nat \<Rightarrow> nat \<Rightarrow> string list \<Rightarrow> py_exception + 'q list" where
  "parse_blocks extract assign uuid question_sequence n question_index [] = Inr []"
| "parse_blocks extract assign uuid question_sequence n question_index (block # blocks) =
     bind (extract (uuid n) block) (\<lambda>question_data.
       let (question_data', question_index') =
             (if question_index < length question_sequence
              then (assign (question_sequence ! question_index) question_data, question_index + 1)
              else (question_data, question_index))
       in bind (parse_blocks extract assign uuid question_sequence (n + 1) question_index' blocks)
            (\<lambda>questions. Inr (question_data' # questions)))"

subsection \<open>services/mcq\_generator.py\<close>

record mcq_question =
  mcq_question_id :: string
  mcq_question :: string
  mcq_answer :: string
  mcq_explanation :: string
  mcq_distractors :: "string list"
  mcq_difficulty :: string
  mcq_blooms_level :: string
  mcq_question_type :: string

text \<open>
  \<^verbatim>\<open>if "ANSWER:" in block\<close>: the text before the first \<^verbatim>\<open>ANSWER:\<close> is the question (the
  statement, for true/false), and the block is cut to \<^verbatim>\<open>"ANSWER:" + block.split("ANSWER:")[1]\<close>.
  Returns the field, if set, and the block.
\<close>

definition cut_question :: "string \<Rightarrow> py_exception + (string option \<times> string)" where
  "cut_question block =
     (if contains ''ANSWER:'' block
      then bind (idx (py_split ''ANSWER:'' block) 0) (\<lambda>q.
           bind (idx (py_split ''ANSWER:'' block) 1) (\<lambda>rest.
           Inr (Some (strip q), ''ANSWER:'' @ rest)))
      else Inr (None, block))"

text \<open>
  \<^verbatim>\<open>if "ANSWER:" in block and "EXPLANATION:" in block\<close>: the raw answer text is
  \<^verbatim>\<open>block.split("ANSWER:")[1].split("EXPLANATION:")[0].strip()\<close> and the block is cut to
  \<^verbatim>\<open>"EXPLANATION:" + block.split("EXPLANATION:")[1]\<close>.
\<close>

definition cut_answer :: "string \<Rightarrow> py_exception + (string option \<times> string)" where
  "cut_answer block =
     (if contains ''ANSWER:'' block \<and> contains ''EXPLANATION:'' block
      then bind (idx (py_split ''ANSWER:'' block) 1) (\<lambda>after.
           bind (idx (py_split ''EXPLANATION:'' after) 0) (\<lambda>a.
           bind (idx (py_split ''EXPLANATION:'' block) 1) (\<lambda>rest.
           Inr (Some (strip a), ''EXPLANATION:'' @ rest))))
      else Inr (None, block))"

text \<open>The explanation of a multiple-choice block ends at \<^verbatim>\<open>DISTRACTOR1:\<close>, if present.\<close>

definition mcq_explanation_of :: "string \<Rightarrow> py_exception + string option" where
  "mcq_explanation_of block =
     (if contains ''EXPLANATION:'' block
      then bind (idx (py_split ''EXPLANATION:'' block) 1) (\<lambda>explanation_text.
           if contains ''DISTRACTOR1:'' explanation_text
           then bind (idx (py_split ''DISTRACTOR1:'' explanation_text) 0) (\<lambda>e. Inr (Some (strip e)))
           else Inr (Some (strip explanation_text)))
      else Inr None)"

text \<open>
  The loop over \<^verbatim>\<open>distractor_keys\<close>; \<^verbatim>\<open>next_key\<close> is the head of the keys still to visit,
  \<^verbatim>\<open>None\<close> after the last one.
\<close>

fun extract_distractors :: "string \<Rightarrow> string list \<Rightarrow> py_exception + string list" where
  "extract_distractors block [] = Inr []"
| "extract_distractors block (key # keys) =
     (if contains key block
      then bind (idx (py_split key block) 1) (\<lambda>after.
           bind (case keys of
                   [] \<Rightarrow> Inr (strip after)
                 | next_key # _ \<Rightarrow>
                     if next_key \<noteq> [] \<and> contains next_key block
                     then bind (idx (py_split next_key after) 0) (\<lambda>d. Inr (strip d))
                     else Inr (strip after)) (\<lambda>distractor.
           bind (extract_distractors block keys) (\<lambda>ds. Inr (distractor # ds))))
      else extract_distractors block keys)"

definition distractor_keys :: "string list" where
  "distractor_keys = [''DISTRACTOR1:'', ''DISTRACTOR2:'', ''DISTRACTOR3:'']"

text \<open>The body of the loop of \<^verbatim>\<open>parse_mcq_response\<close> up to the metadata assignment.\<close>

definition extract_mcq :: "string \<Rightarrow> string \<Rightarrow> py_exception + mcq_question" where
  "extract_mcq qid block0 =
     bind (cut_question block0) (\<lambda>(q, block1).
     bind (cut_answer block1) (\<lambda>(a, block2).
     bind (mcq_explanation_of block2) (\<lambda>e.
     bind (extract_distractors block2 distractor_keys) (\<lambda>ds.
     Inr \<lparr> mcq_question_id = qid,
           mcq_question = (case q of None \<Rightarrow> [] | Some v \<Rightarrow> v),
           mcq_answer = (case a of None \<Rightarrow> [] | Some v \<Rightarrow> v),
           mcq_explanation = (case e of None \<Rightarrow> [] | Some v \<Rightarrow> v),
           mcq_distractors = ds,
           mcq_difficulty = [],
           mcq_blooms_level = [],
           mcq_question_type = ''mcq'' \<rparr>))))"

definition assign_mcq :: "string \<times> string \<Rightarrow> mcq_question \<Rightarrow> mcq_question" where
  "assign_mcq p question_data =
     question_data\<lparr> mcq_difficulty := fst p, mcq_blooms_level := snd p \<rparr>"

definition parse_mcq_response ::
  "(nat \<Rightarrow> string) \<Rightarrow> string \<Rightarrow> distribution \<Rightarrow> py_exception + mcq_question list" where
  "parse_mcq_response uuid response_text question_breakdown =
     parse_blocks extract_mcq assign_mcq uuid (create_question_sequence question_breakdown) 0 0
       (surviving_blocks ''QUESTION:'' response_text)"

text \<open>The block after the two cuts keeps no delimiter that the original block lacks.\<close>

definition after_cuts :: "string \<Rightarrow> string" where
  "after_cuts block0 =
     (let block1 = (if contains ''ANSWER:'' block0
                    then ''ANSWER:'' @ py_split ''ANSWER:'' block0 ! 1 else block0)
      in if contains ''ANSWER:'' block1 \<and> contains ''EXPLANATION:'' block1
         then ''EXPLANATION:'' @ py_split ''EXPLANATION:'' block1 ! 1 else block1)"

text \<open>The line feed character, and the inputs of the end-to-end scenario B of the specification.\<close>

definition LF :: string where
  "LF = [CHR 0x0A]"

definition scenario_b_text :: string where
  "scenario_b_text =
     ''QUESTION: Q1'' @ LF @ ''ANSWER: A1'' @ LF @ ''EXPLANATION: E1'' @ LF @
     ''QUESTION: Q2'' @ LF @ ''ANSWER: A2'' @ LF @ ''EXPLANATION: E2''"

definition scenario_b_breakdown :: distribution where
  "scenario_b_breakdown =
     [(''mcq_basic_remember'',
         \<lparr> question_type = ''mcq'', difficulty = ''basic'', blooms_level = ''remember'', count = 1 \<rparr>),
      (''mcq_advanced_analyze'',
         \<lparr> question_type = ''mcq'', difficulty = ''advanced'', blooms_level = ''analyze'', count = 1 \<rparr>)]"

text \<open>A completion whose only block has no \<^verbatim>\<open>EXPLANATION:\<close> delimiter.\<close>

definition no_explanation_text :: string where
  "no_explanation_text = ''QUESTION: Q1'' @ LF @ ''ANSWER: A1''"

subsection \<open>services/fib\_generator.py\<close>

record fib_question =
  fib_question_id :: string
  fib_question :: string
  fib_answer :: "string list"
  fib_explanation :: string
  fib_difficulty :: string
  fib_blooms_level :: string
  fib_question_type :: string

text \<open>
  One pass of the loop over \<^verbatim>\<open>answer_lines\<close>, returning the answers it appends:
  \<^verbatim>\<open>line = line.strip()\<close>, then
  \<^verbatim>\<open>if line and (line[0].isdigit() and '. ' in line)\<close> the item
  \<^verbatim>\<open>line.split('. ', 1)[1].strip()\<close>, \<^verbatim>\<open>elif line\<close> the line itself.
\<close>

definition fib_answer_line :: "string \<Rightarrow> py_exception + string list" where
  "fib_answer_line raw =
     (let line = strip raw
      in case line of
           [] \<Rightarrow> Inr []
         | c # _ \<Rightarrow>
             if is_digit c \<and> contains ''. '' line
             then bind (idx (py_split_max ''. '' 1 line) 1) (\<lambda>answer_item. Inr [strip answer_item])
             else Inr [line])"

fun fib_answer_lines :: "string list \<Rightarrow> py_exception + string list" where
  "fib_answer_lines [] = Inr []"
| "fib_answer_lines (line # answer_lines) =
     bind (fib_answer_line line) (\<lambda>items.
     bind (fib_answer_lines answer_lines) (\<lambda>rest. Inr (items @ rest)))"

text \<open>
  \<^verbatim>\<open>if "EXPLANATION:" in block\<close>: the explanation is \<^verbatim>\<open>block.split("EXPLANATION:")[1].strip()\<close>
  (fill-in-blank and true/false).
\<close>

definition explanation_of :: "string \<Rightarrow> py_exception + string option" where
  "explanation_of block =
     (if contains ''EXPLANATION:'' block
      then bind (idx (py_split ''EXPLANATION:'' block) 1) (\<lambda>explanation_text.
           Inr (Some (strip explanation_text)))
      else Inr None)"

text \<open>
  The body of the loop of \<^verbatim>\<open>parse_fib_response\<close> up to the metadata assignment. The answer
  text between \<^verbatim>\<open>ANSWER:\<close> and \<^verbatim>\<open>EXPLANATION:\<close> is split into lines at the line feed.
\<close>

definition extract_fib :: "string \<Rightarrow> string \<Rightarrow> py_exception + fib_question" where
  "extract_fib qid block0 =
     bind (cut_question block0) (\<lambda>(q, block1).
     bind (cut_answer block1) (\<lambda>(a, block2).
     bind (case a of
             None \<Rightarrow> Inr []
           | Some answer_text \<Rightarrow> fib_answer_lines (py_split LF answer_text)) (\<lambda>answers.
     bind (explanation_of block2) (\<lambda>e.
     Inr \<lparr> fib_question_id = qid,
           fib_question = (case q of None \<Rightarrow> [] | Some v \<Rightarrow> v),
           fib_answer = answers,
           fib_explanation = (case e of None \<Rightarrow> [] | Some v \<Rightarrow> v),
           fib_difficulty = [],
           fib_blooms_level = [],
           fib_question_type = ''fib'' \<rparr>))))"

definition assign_fib :: "string \<times> string \<Rightarrow> fib_question \<Rightarrow> fib_question" where
  "assign_fib p question_data =
     question_data\<lparr> fib_difficulty := fst p, fib_blooms_level := snd p \<rparr>"

definition parse_fib_response ::
  "(nat \<Rightarrow> string) \<Rightarrow> string \<Rightarrow> distribution \<Rightarrow> py_exception + fib_question list" where
  "parse_fib_response uuid response_text question_breakdown =
     parse_blocks extract_fib assign_fib uuid (create_question_sequence question_breakdown) 0 0
       (surviving_blocks ''QUESTION:'' response_text)"

subsection \<open>services/tf\_generator.py\<close>

record tf_question =
  tf_question_id :: string
  tf_statement :: string
  tf_answer :: string
  tf_explanation :: string
  tf_difficulty :: string
  tf_blooms_level :: string
  tf_question_type :: string

text \<open>The answer of a true/false block; the block is not cut at this step.\<close>

definition tf_answer_of :: "string \<Rightarrow> py_exception + string option" where
  "tf_answer_of block =
     (if contains ''ANSWER:'' block \<and> contains ''EXPLANATION:'' block
      then bind (idx (py_split ''ANSWER:'' block) 1) (\<lambda>after.
           bind (idx (py_split ''EXPLANATION:'' after) 0) (\<lambda>a. Inr (Some (strip a))))
      else if contains ''ANSWER:'' block
      then bind (idx (py_split ''ANSWER:'' block) 1) (\<lambda>after. Inr (Some (strip after)))
      else Inr None)"

definition extract_tf :: "string \<Rightarrow> string \<Rightarrow> py_exception + tf_question" where
  "extract_tf qid block0 =
     bind (cut_question block0) (\<lambda>(s, block1).
     bind (tf_answer_of block1) (\<lambda>a.
     bind (explanation_of block1) (\<lambda>e.
     Inr \<lparr> tf_question_id = qid,
           tf_statement = (case s of None \<Rightarrow> [] | Some v \<Rightarrow> v),
           tf_answer = (case a of None \<Rightarrow> [] | Some v \<Rightarrow> v),
           tf_explanation = (case e of None \<Rightarrow> [] | Some v \<Rightarrow> v),
           tf_difficulty = [],
           tf_blooms_level = [],
           tf_question_type = ''tf'' \<rparr>)))"

definition assign_tf :: "string \<times> string \<Rightarrow> tf_question \<Rightarrow> tf_question" where
  "assign_tf p question_data =
     question_data\<lparr> tf_difficulty := fst p, tf_blooms_level := snd p \<rparr>"

definition parse_tf_response ::
  "(nat \<Rightarrow> string) \<Rightarrow> string \<Rightarrow> distribution \<Rightarrow> py_exception + tf_question list" where
  "parse_tf_response uuid response_text question_breakdown =
     parse_blocks extract_tf assign_tf uuid (create_question_sequence question_breakdown) 0 0
       (surviving_blocks ''STATEMENT:'' response_text)"

text \<open>A fill-in-blank completion whose answer line starts with a digit and is not numbered.\<close>

definition unnumbered_digit_text :: string where
  "unnumbered_digit_text =
     ''QUESTION: The meeting starts at ___.'' @ LF @ ''ANSWER: 4 p.m. Eastern'' @ LF @
     ''EXPLANATION: The schedule says so.''"

section \<open>The pipelines and the orchestrator\<close>

subsection \<open>Records and external collaborators\<close>

text \<open>A parsed question of one of the three shapes.\<close>

datatype question = MCQ mcq_question | FIB fib_question | TF tf_question

text \<open>
  The collaborators outside the modelled core, and what the model takes from them:
  the content store; the completion service, whose outcome on the prompt of a pipeline is a
  function of what the prompt is built from (question type, chapter content, number of
  questions, question breakdown); the identifiers \<^verbatim>\<open>uuid.uuid4()\<close> returns in a pipeline, by
  call number; the artifact name of \<^verbatim>\<open>generate_filename\<close>, which formats percentages computed
  in floating point; the artifact sink, which may raise; and the three durations of the
  success message, already formatted.
\<close>

record env =
  retrieve_chapter_content :: "string \<Rightarrow> string \<Rightarrow> int \<Rightarrow> int \<Rightarrow> py_exception + string"
  generate_completion :: "string \<Rightarrow> string \<Rightarrow> int \<Rightarrow> distribution \<Rightarrow> py_exception + string"
  uuid4 :: "string \<Rightarrow> nat \<Rightarrow> string"
  generate_filename :: "string \<Rightarrow> proportion_map \<Rightarrow> proportion_map \<Rightarrow> string \<Rightarrow> string option \<Rightarrow> string"
  save_questions_to_file :: "question list \<Rightarrow> string \<Rightarrow> py_exception + unit"
  total_time :: string
  content_time :: string
  parallel_time :: string

text \<open>\<^verbatim>\<open>QuestionGenerationRequest\<close>; the learning objectives are \<^verbatim>\<open>None\<close> or a string.\<close>

record request =
  req_contentId :: string
  req_chapter_name :: string
  req_learning_objectives :: "string option"
  req_total_questions :: int
  req_question_type_distribution :: proportion_map
  req_difficulty_distribution :: proportion_map
  req_blooms_taxonomy_distribution :: proportion_map
  req_session_id :: string
  req_max_chunks :: int
  req_max_chars :: int

text \<open>
  \<^verbatim>\<open>QuestionGenerationResponse\<close>; \<open>data\<close> maps a question type to the \<^verbatim>\<open>question_data\<close> of
  its pipeline result.
\<close>

record response =
  status :: string
  message :: string
  session_id :: string
  contentId :: string
  chapter_name :: string
  learning_objectives :: "string option"
  total_questions :: int
  question_type_distribution :: proportion_map
  difficulty_distribution :: proportion_map
  blooms_taxonomy_distribution :: proportion_map
  files_generated :: "string list"
  data :: "(string \<times> question list option) list"

text \<open>
  The result of a pipeline: \<^verbatim>\<open>(question_type, file_name, question_data, error)\<close>.
\<close>

type_synonym pipeline_result = "string \<times> string option \<times> question list option \<times> string option"

subsection \<open>The generators\<close>

definition no_content_message :: "string \<Rightarrow> string \<Rightarrow> string" where
  "no_content_message chapter content =
     ''No content found for chapter '' @ [CHR 0x27] @ chapter @ [CHR 0x27] @ '' in ''
       @ [CHR 0x27] @ content @ [CHR 0x27]"

text \<open>
  The three generators have one shape: content (retrieved when none is passed), the
  breakdown over the single question type, the completion, the parse, the failure on an
  empty parse, the artifact. They differ in the type tag, the parser and the message.
\<close>

definition run_generator ::
  "env \<Rightarrow> string \<Rightarrow> ((nat \<Rightarrow> string) \<Rightarrow> string \<Rightarrow> distribution \<Rightarrow> py_exception + question list)
     \<Rightarrow> string \<Rightarrow> string \<Rightarrow> string \<Rightarrow> string option \<Rightarrow> int \<Rightarrow> proportion_map \<Rightarrow> proportion_map
     \<Rightarrow> string option \<Rightarrow> int \<Rightarrow> int \<Rightarrow> py_exception + (question list \<times> string)" where
  "run_generator e tag parse no_valid chapter content_id objectives num_questions
       difficulty_dist blooms_dist chapter_content max_chunks max_chars =
     bind (case chapter_content of
             None \<Rightarrow> retrieve_chapter_content e chapter content_id max_chunks max_chars
           | Some c \<Rightarrow> Inr c) (\<lambda>content.
     if content = [] then Inl (ValueError (no_content_message chapter content_id))
     else
       let question_breakdown =
             calculate_question_distribution num_questions [(tag, 1)] difficulty_dist blooms_dist
       in bind (generate_completion e tag content num_questions question_breakdown) (\<lambda>completion.
          bind (parse (uuid4 e tag) completion question_breakdown) (\<lambda>questions.
          if questions = [] then Inl (ValueError no_valid)
          else
            let filename = generate_filename e chapter difficulty_dist blooms_dist tag objectives
            in bind (save_questions_to_file e questions filename) (\<lambda>_.
               Inr (questions, filename)))))"

definition generate_mcqs ::
  "env \<Rightarrow> string \<Rightarrow> string \<Rightarrow> string option \<Rightarrow> int \<Rightarrow> proportion_map \<Rightarrow> proportion_map
     \<Rightarrow> string option \<Rightarrow> int \<Rightarrow> int \<Rightarrow> py_exception + (question list \<times> string)" where
  "generate_mcqs e =
     run_generator e ''mcq''
       (\<lambda>uuid completion breakdown.
          bind (parse_mcq_response uuid completion breakdown) (\<lambda>qs. Inr (map MCQ qs)))
       ''No valid MCQs could be parsed from LLM response''"

definition generate_fill_in_blank ::
  "env \<Rightarrow> string \<Rightarrow> string \<Rightarrow> string option \<Rightarrow> int \<Rightarrow> proportion_map \<Rightarrow> proportion_map
     \<Rightarrow> string option \<Rightarrow> int \<Rightarrow> int \<Rightarrow> py_exception + (question list \<times> string)" where
  "generate_fill_in_blank e =
     run_generator e ''fib''
       (\<lambda>uuid completion breakdown.
          bind (parse_fib_response uuid completion breakdown) (\<lambda>qs. Inr (map FIB qs)))
       ''No valid fill-in-the-blank questions could be parsed from LLM response''"

definition generate_true_false ::
  "env \<Rightarrow> string \<Rightarrow> string \<Rightarrow> string option \<Rightarrow> int \<Rightarrow> proportion_map \<Rightarrow> proportion_map
     \<Rightarrow> string option \<Rightarrow> int \<Rightarrow> int \<Rightarrow> py_exception + (question list \<times> string)" where
  "generate_true_false e =
     run_generator e ''tf''
       (\<lambda>uuid completion breakdown.
          bind (parse_tf_response uuid completion breakdown) (\<lambda>qs. Inr (map TF qs)))
       ''No valid true/false questions could be parsed from LLM response''"

subsection \<open>services/question\_generation\_service.py\<close>

text \<open>
  The \<^verbatim>\<open>if\<close>/\<^verbatim>\<open>elif\<close> chain of \<^verbatim>\<open>_generate_single_question_type_sync\<close>: the generator of
  the question type, called with the content already retrieved, or the
  \<^verbatim>\<open>ValueError\<close> of an unknown type.
\<close>

definition generate_for_type ::
  "env \<Rightarrow> string \<Rightarrow> string \<Rightarrow> string \<Rightarrow> string option \<Rightarrow> int \<Rightarrow> proportion_map \<Rightarrow> proportion_map
     \<Rightarrow> string \<Rightarrow> int \<Rightarrow> int \<Rightarrow> py_exception + (question list \<times> string)" where
  "generate_for_type e qtype chapter content_id objectives total_for_type
       difficulty_dist blooms_dist chapter_content max_chunks max_chars =
     (if qtype = ''mcq''
      then generate_mcqs e chapter content_id objectives total_for_type
             difficulty_dist blooms_dist (Some chapter_content) max_chunks max_chars
      else if qtype = ''fib''
      then generate_fill_in_blank e chapter content_id objectives total_for_type
             difficulty_dist blooms_dist (Some chapter_content) max_chunks max_chars
      else if qtype = ''tf''
      then generate_true_false e chapter content_id objectives total_for_type
             difficulty_dist blooms_dist (Some chapter_content) max_chunks max_chars
      else Inl (ValueError (''Unknown question type: '' @ qtype)))"

text \<open>
  \<^verbatim>\<open>_generate_single_question_type_sync\<close>: the whole body is inside \<^verbatim>\<open>try\<close>, and
  \<^verbatim>\<open>except Exception as e\<close> returns the tuple with \<^verbatim>\<open>str(e)\<close>. The configurations are read
  for their total only; the generator receives the two distributions.
\<close>

definition generate_single_question_type_sync ::
  "env \<Rightarrow> string \<Rightarrow> config list \<Rightarrow> string \<Rightarrow> string \<Rightarrow> string \<Rightarrow> string option
     \<Rightarrow> proportion_map \<Rightarrow> proportion_map \<Rightarrow> int \<Rightarrow> int \<Rightarrow> pipeline_result" where
  "generate_single_question_type_sync e qtype configs chapter_content chapter content_id
       objectives difficulty_dist blooms_dist max_chunks max_chars =
     (let total_for_type = sum_list (map count configs)
      in case generate_for_type e qtype chapter content_id objectives total_for_type
                difficulty_dist blooms_dist chapter_content max_chunks max_chars of
           Inl ex \<Rightarrow> (qtype, None, None, Some (str_of ex))
         | Inr (questions, filename) \<Rightarrow> (qtype, Some filename, Some questions, None))"

text \<open>\<^verbatim>\<open>_group_by_question_type\<close>: a dict from question type to the list of its entries.\<close>

definition group_by_question_type :: "distribution \<Rightarrow> (string \<times> config list) list" where
  "group_by_question_type question_dist =
     foldl (\<lambda>type_groups kv.
              let q_type = question_type (snd kv);
                  type_groups' = (if q_type \<in> set (map fst type_groups) then type_groups
                                  else AList.update q_type [] type_groups)
              in AList.map_entry q_type (\<lambda>cs. cs @ [snd kv]) type_groups')
       [] question_dist"

text \<open>
  \<^verbatim>\<open>if k not in d: d[k] = 0\<close> followed by \<^verbatim>\<open>d[k] += x\<close>.
\<close>

definition add_share :: "proportion_map \<Rightarrow> string \<Rightarrow> rat \<Rightarrow> proportion_map" where
  "add_share m k x =
     AList.map_entry k (\<lambda>v. v + x) (if k \<in> set (map fst m) then m else AList.update k 0 m)"

text \<open>
  The combined distributions of one question type: every entry adds
  \<^verbatim>\<open>count / total_for_type\<close> to its difficulty and to its Bloom's level. The division raises
  on a zero total.
\<close>

definition distributions_for_type ::
  "config list \<Rightarrow> py_exception + (proportion_map \<times> proportion_map)" where
  "distributions_for_type configs =
     (let total_for_type = sum_list (map count configs)
      in foldl (\<lambda>acc config.
                  bind acc (\<lambda>(difficulty_dist, blooms_dist).
                    if total_for_type = 0 then Inl ZeroDivisionError
                    else Inr (add_share difficulty_dist (difficulty config)
                                (of_int (count config) / of_int total_for_type),
                              add_share blooms_dist (blooms_level config)
                                (of_int (count config) / of_int total_for_type))))
           (Inr ([], [])) configs)"












subsection \<open>Quantities used in the statements about the pipelines\<close>

text \<open>The question types with a generator, the parser and the empty-parse message of each.\<close>

definition question_types :: "string list" where
  "question_types = [''mcq'', ''fib'', ''tf'']"

definition type_parser ::
  "string \<Rightarrow> (nat \<Rightarrow> string) \<Rightarrow> string \<Rightarrow> distribution \<Rightarrow> py_exception + question list" where
  "type_parser qtype uuid completion breakdown =
     (if qtype = ''mcq'' then bind (parse_mcq_response uuid completion breakdown) (\<lambda>qs. Inr (map MCQ qs))
      else if qtype = ''fib'' then bind (parse_fib_response uuid completion breakdown) (\<lambda>qs. Inr (map FIB qs))
      else bind (parse_tf_response uuid completion breakdown) (\<lambda>qs. Inr (map TF qs)))"

definition no_valid_message :: "string \<Rightarrow> string" where
  "no_valid_message qtype =
     (if qtype = ''mcq'' then ''No valid MCQs could be parsed from LLM response''
      else if qtype = ''fib''
      then ''No valid fill-in-the-blank questions could be parsed from LLM response''
      else ''No valid true/false questions could be parsed from LLM response'')"

text \<open>
  The breakdown a generator computes when the pipeline of a question type calls it: the
  total of the type's entries over the single type and the two distributions it receives.
\<close>

definition type_breakdown ::
  "string \<Rightarrow> config list \<Rightarrow> proportion_map \<Rightarrow> proportion_map \<Rightarrow> distribution" where
  "type_breakdown qtype configs difficulty_dist blooms_dist =
     calculate_question_distribution (sum_list (map count configs)) [(qtype, 1)]
       difficulty_dist blooms_dist"


text \<open>
  Collaborators for the scenarios: a content store with a chapter, fixed identifiers and
  artifact name, a sink that never fails, and a completion service that returns the empty
  text, or fails for the multiple-choice pipeline and returns one block to the others.
\<close>

definition empty_completion_env :: env where
  "empty_completion_env =
     \<lparr> retrieve_chapter_content = (\<lambda>_ _ _ _. Inr ''chapter text''),
       generate_completion = (\<lambda>_ _ _ _. Inr []),
       uuid4 = (\<lambda>_ _. ''id''),
       generate_filename = (\<lambda>_ _ _ _ _. ''out.json''),
       save_questions_to_file = (\<lambda>_ _. Inr ()),
       total_time = ''0.00'', content_time = ''0.00'', parallel_time = ''0.00'' \<rparr>"



text \<open>The two distributions of a question type, when the total is not zero.\<close>

definition shares ::
  "(config \<Rightarrow> string) \<Rightarrow> int \<Rightarrow> proportion_map \<Rightarrow> config list \<Rightarrow> proportion_map" where
  "shares label total_for_type m configs =
     foldl (\<lambda>m c. add_share m (label c) (of_int (count c) / of_int total_for_type)) m configs"

text \<open>A label without underscore.\<close>

definition plain_label :: "string \<Rightarrow> bool" where
  "plain_label s = (CHR ''_'' \<notin> set s)"

text \<open>The single global allocation of a request.\<close>

definition global_distribution :: "request \<Rightarrow> distribution" where
  "global_distribution r =
     calculate_question_distribution (req_total_questions r) (req_question_type_distribution r)
       (req_difficulty_distribution r) (req_blooms_taxonomy_distribution r)"

text \<open>
  The sequence of the claim: the global allocation filtered to one question type, each
  entry's pair repeated \<^verbatim>\<open>count\<close> times in the order of the entries.
\<close>

definition restricted_sequence :: "request \<Rightarrow> string \<Rightarrow> (string \<times> string) list" where
  "restricted_sequence r qtype =
     create_question_sequence
       (filter (\<lambda>kv. question_type (snd kv) = qtype) (global_distribution r))"

text \<open>
  The sequence the parser of a question type pairs blocks against in a request: the
  orchestrator passes the generator the total and the two combined distributions of the
  type's group, and the generator expands the breakdown it computes from them. A type
  without a group has no pipeline and no block to pair.
\<close>

definition used_sequence :: "request \<Rightarrow> string \<Rightarrow> py_exception + (string \<times> string) list" where
  "used_sequence r qtype =
     (case map_of (group_by_question_type (global_distribution r)) qtype of
        None \<Rightarrow> Inr []
      | Some configs \<Rightarrow>
          bind (distributions_for_type configs) (\<lambda>(difficulty_dist, blooms_dist).
          Inr (create_question_sequence
                 (type_breakdown qtype configs difficulty_dist blooms_dist))))"

text \<open>A request whose true/false group is reallocated to other pairs by its generator.\<close>

definition reallocated_request :: request where
  "reallocated_request =
     \<lparr> req_contentId = ''book'', req_chapter_name = ''chapter'', req_learning_objectives = None,
       req_total_questions = 4,
       req_question_type_distribution = [(''mcq'', 1/4), (''tf'', 3/4)],
       req_difficulty_distribution = [(''basic'', 1/2), (''intermediate'', 1/2)],
       req_blooms_taxonomy_distribution = [(''remember'', 1/4), (''apply'', 1/4), (''analyze'', 1/2)],
       req_session_id = ''s'', req_max_chunks = 200, req_max_chars = 100000 \<rparr>"

section \<open>Properties of the allocator\<close>

lemma update_fresh: "k \<notin> fst ` set al \<Longrightarrow> AList.update k v al = al @ [(k, v)]"
  by (induct al) auto

lemma foldl_update_distinct:
  "distinct (map f (ys @ xs)) \<Longrightarrow>
   foldl (\<lambda>fd c. AList.update (f c) (g c) fd) (map (\<lambda>c. (f c, g c)) ys) xs
     = map (\<lambda>c. (f c, g c)) (ys @ xs)"
proof (induction xs arbitrary: ys)
  case Nil
  then show ?case by simp
next
  case (Cons x xs)
  have fresh: "f x \<notin> fst ` set (map (\<lambda>c. (f c, g c)) ys)"
    using Cons.prems by (auto simp: image_iff)
  have "AList.update (f x) (g x) (map (\<lambda>c. (f c, g c)) ys) = map (\<lambda>c. (f c, g c)) (ys @ [x])"
    using update_fresh [OF fresh] by simp
  moreover have "distinct (map f ((ys @ [x]) @ xs))"
    using Cons.prems by simp
  ultimately show ?case
    using Cons.IH [of "ys @ [x]"] by simp
qed

lemma foldl_update_keys_distinct:
  "distinct (map fst acc) \<Longrightarrow>
   distinct (map fst (foldl (\<lambda>fd c. AList.update (f c) (g c) fd) acc xs))"
  by (induction xs arbitrary: acc) (simp_all add: distinct_update)

lemma fractional_distribution_keys_distinct:
  "distinct (map fst (fractional_distribution t qd dd bd))"
  unfolding fractional_distribution_def
  by (rule foldl_update_keys_distinct) simp

lemma fractional_distribution_map:
  assumes "distinct (map key_of (combos qd dd bd))"
  shows "fractional_distribution t qd dd bd
           = map (\<lambda>c. (key_of c, item_of t c)) (combos qd dd bd)"
  unfolding fractional_distribution_def
  using foldl_update_distinct [of key_of "[]" "combos qd dd bd" "item_of t"] assms
  by simp

lemma distribute_remainder_take:
  "distribute_remainder r sk fd
     = foldl (\<lambda>fd k. AList.map_entry k add_one fd) fd (take (nat r) sk)"
proof -
  have "foldl (\<lambda>fd i. if i < length sk then AList.map_entry (sk ! i) add_one fd else fd) fd [0 ..< n]
          = foldl (\<lambda>fd k. AList.map_entry k add_one fd) fd (take n sk)" for n
  proof (induction n)
    case 0
    then show ?case by simp
  next
    case (Suc n)
    show ?case
    proof (cases "n < length sk")
      case True
      then show ?thesis using Suc by (simp add: take_Suc_conv_app_nth)
    next
      case False
      then show ?thesis using Suc by simp
    qed
  qed
  then show ?thesis by (simp add: distribute_remainder_def)
qed

lemma map_entry_as_map:
  "distinct (map fst fd) \<Longrightarrow>
   AList.map_entry k f fd = map (\<lambda>kv. if fst kv = k then (fst kv, f (snd kv)) else kv) fd"
proof (induction fd)
  case Nil
  then show ?case by simp
next
  case (Cons p ps)
  show ?case
  proof (cases "fst p = k")
    case True
    then have "k \<notin> fst ` set ps" using Cons.prems by auto
    then have "map (\<lambda>kv. if fst kv = k then (fst kv, f (snd kv)) else kv) ps = ps"
      by (induction ps) auto
    with True show ?thesis by simp
  next
    case False
    then show ?thesis using Cons by simp
  qed
qed

lemma foldl_map_entry_as_map:
  "distinct ks \<Longrightarrow> distinct (map fst fd) \<Longrightarrow>
   foldl (\<lambda>fd k. AList.map_entry k f fd) fd ks
     = map (\<lambda>kv. if fst kv \<in> set ks then (fst kv, f (snd kv)) else kv) fd"
proof (induction ks arbitrary: fd)
  case Nil
  then show ?case by simp
next
  case (Cons k ks)
  have d: "distinct (map fst (AList.map_entry k f fd))"
    using Cons.prems by (simp add: distinct_map_entry)
  have "foldl (\<lambda>fd k. AList.map_entry k f fd) fd (k # ks)
          = map (\<lambda>kv. if fst kv \<in> set ks then (fst kv, f (snd kv)) else kv)
              (AList.map_entry k f fd)"
    using Cons.IH [OF _ d] Cons.prems by simp
  also have "\<dots> = map (\<lambda>kv. if fst kv \<in> set (k # ks) then (fst kv, f (snd kv)) else kv) fd"
    using Cons.prems by (auto simp: map_entry_as_map)
  finally show ?case .
qed

lemma sorted_keys_set: "set (sorted_keys fd) = fst ` set fd"
  by (simp add: sorted_keys_def)

lemma sorted_keys_length: "length (sorted_keys fd) = length fd"
  by (simp add: sorted_keys_def)

lemma sorted_keys_distinct: "distinct (map fst fd) \<Longrightarrow> distinct (sorted_keys fd)"
  by (simp add: sorted_keys_def distinct_map)

lemma awarded_keys_distinct: "distinct (map fst fd) \<Longrightarrow> distinct (awarded_keys t fd)"
  by (simp add: awarded_keys_def sorted_keys_distinct)

lemma awarded_keys_subset: "set (awarded_keys t fd) \<subseteq> fst ` set fd"
  unfolding awarded_keys_def using set_take_subset [of "nat (remainder_of t fd)" "sorted_keys fd"]
  by (simp add: sorted_keys_set)

lemma awarded_keys_length:
  "length (awarded_keys t fd) = min (nat (remainder_of t fd)) (length fd)"
  by (simp add: awarded_keys_def sorted_keys_length min.commute)

lemma awarded_distribution_map:
  "awarded_distribution t qd dd bd =
     (let fd = fractional_distribution t qd dd bd
      in map (\<lambda>kv. if fst kv \<in> set (awarded_keys t fd) then (fst kv, add_one (snd kv)) else kv) fd)"
  unfolding awarded_distribution_def Let_def distribute_remainder_take awarded_keys_def [symmetric]
  by (rule foldl_map_entry_as_map)
     (simp_all add: awarded_keys_distinct fractional_distribution_keys_distinct)

lemma awarded_distribution_keys:
  "map fst (awarded_distribution t qd dd bd) = map fst (fractional_distribution t qd dd bd)"
  by (simp add: awarded_distribution_map Let_def comp_def if_distrib [of fst] cong: if_cong)

lemma remove_zero_acc:
  "distinct (map fst (ys @ xs)) \<Longrightarrow>
   foldl (\<lambda>distr kv. if fi_count (snd kv) > 0 then AList.update (fst kv) (clean (snd kv)) distr
                       else distr)
     (map (\<lambda>kv. (fst kv, clean (snd kv))) (filter (\<lambda>kv. fi_count (snd kv) > 0) ys)) xs
   = map (\<lambda>kv. (fst kv, clean (snd kv))) (filter (\<lambda>kv. fi_count (snd kv) > 0) (ys @ xs))"
proof (induction xs arbitrary: ys)
  case Nil
  then show ?case by simp
next
  case (Cons x xs)
  let ?h = "\<lambda>kv. (fst kv, clean (snd kv))"
  let ?P = "\<lambda>kv. fi_count (snd kv) > 0"
  have fresh: "fst x \<notin> fst ` set (map ?h (filter ?P ys))"
    using Cons.prems by (auto simp: image_iff)
  have step: "(if ?P x then AList.update (fst x) (clean (snd x)) (map ?h (filter ?P ys))
               else map ?h (filter ?P ys)) = map ?h (filter ?P (ys @ [x]))"
    using update_fresh [OF fresh] by simp
  have d: "distinct (map fst ((ys @ [x]) @ xs))" using Cons.prems by simp
  show ?case
    using Cons.IH [OF d] step by simp
qed

lemma remove_zero_map:
  assumes "distinct (map fst fd)"
  shows "remove_zero fd
           = map (\<lambda>kv. (fst kv, clean (snd kv))) (filter (\<lambda>kv. fi_count (snd kv) > 0) fd)"
  unfolding remove_zero_def using remove_zero_acc [of "[]" fd] assms by simp

lemma sum_list_filter_pos:
  fixes f :: "'a \<Rightarrow> int"
  shows "\<forall>x \<in> set xs. 0 \<le> f x \<Longrightarrow> sum_list (map f (filter (\<lambda>x. f x > 0) xs)) = sum_list (map f xs)"
  by (induction xs) auto

lemma length_filter_mem:
  assumes "distinct xs" "distinct ks" "set ks \<subseteq> set xs"
  shows "length (filter (\<lambda>x. x \<in> set ks) xs) = length ks"
proof -
  have "length (filter (\<lambda>x. x \<in> set ks) xs) = card ({x. x \<in> set ks} \<inter> set xs)"
    using assms(1) by (rule distinct_length_filter)
  also have "{x. x \<in> set ks} \<inter> set xs = set ks" using assms(3) by auto
  finally show ?thesis using assms(2) by (simp add: distinct_card)
qed

lemma sum_list_award:
  fixes fd :: "(string \<times> frac_item) list"
  shows "sum_list (map (\<lambda>kv. fi_count (snd kv))
           (map (\<lambda>kv. if fst kv \<in> A then (fst kv, add_one (snd kv)) else kv) fd))
         = sum_list (map (\<lambda>kv. fi_count (snd kv)) fd)
           + int (length (filter (\<lambda>k. k \<in> A) (map fst fd)))"
  by (induction fd) (auto simp: add_one_def)

lemma awarded_sum:
  "sum_list (map (\<lambda>kv. fi_count (snd kv)) (awarded_distribution t qd dd bd))
     = (let fd = fractional_distribution t qd dd bd
        in sum_list (map (\<lambda>kv. fi_count (snd kv)) fd)
           + int (min (nat (remainder_of t fd)) (length fd)))"
proof -
  let ?fd = "fractional_distribution t qd dd bd"
  let ?A = "set (awarded_keys t ?fd)"
  have len: "length (filter (\<lambda>k. k \<in> ?A) (map fst ?fd)) = length (awarded_keys t ?fd)"
    using awarded_keys_subset [of t ?fd]
    by (intro length_filter_mem)
       (simp_all add: fractional_distribution_keys_distinct awarded_keys_distinct)
  have "awarded_distribution t qd dd bd
          = map (\<lambda>kv. if fst kv \<in> ?A then (fst kv, add_one (snd kv)) else kv) ?fd"
    by (simp add: awarded_distribution_map Let_def)
  then have "sum_list (map (\<lambda>kv. fi_count (snd kv)) (awarded_distribution t qd dd bd))
          = sum_list (map (\<lambda>kv. fi_count (snd kv)) ?fd)
            + int (length (filter (\<lambda>k. k \<in> ?A) (map fst ?fd)))"
    by (simp only: sum_list_award)
  also have "\<dots> = sum_list (map (\<lambda>kv. fi_count (snd kv)) ?fd)
            + int (min (nat (remainder_of t ?fd)) (length ?fd))"
    by (simp only: len awarded_keys_length)
  finally show ?thesis by (simp only: Let_def)
qed

lemma set_update_subset: "(k, v) \<in> set (AList.update k' v' al) \<Longrightarrow> (k, v) = (k', v') \<or> (k, v) \<in> set al"
  by (induction al) (auto split: if_splits)

lemma foldl_update_values:
  "(k, v) \<in> set (foldl (\<lambda>fd c. AList.update (f c) (g c) fd) acc xs) \<Longrightarrow>
   (k, v) \<in> set acc \<or> (\<exists>c \<in> set xs. k = f c \<and> v = g c)"
proof (induction xs arbitrary: acc)
  case Nil
  then show ?case by simp
next
  case (Cons x xs)
  from Cons.prems have "(k, v) \<in> set (foldl (\<lambda>fd c. AList.update (f c) (g c) fd) (AList.update (f x) (g x) acc) xs)"
    by simp
  from Cons.IH [OF this] show ?case
    using set_update_subset [of k v "f x" "g x" acc] by auto
qed

lemma fractional_distribution_items:
  assumes "(k, it) \<in> set (fractional_distribution t qd dd bd)"
  shows "\<exists>c \<in> set (combos qd dd bd). k = key_of c \<and> it = item_of t c"
  using foldl_update_values [of k it key_of "item_of t" "[]" "combos qd dd bd"] assms
  by (simp add: fractional_distribution_def)

lemma combos_mem:
  "c \<in> set (combos qd dd bd) \<longleftrightarrow> fst c \<in> set qd \<and> fst (snd c) \<in> set dd \<and> snd (snd c) \<in> set bd"
  by (cases c) (auto simp: combos_def)

lemma exact_of_nonneg:
  assumes "0 \<le> t" "nonneg_weights qd" "nonneg_weights dd" "nonneg_weights bd"
      and "c \<in> set (combos qd dd bd)"
  shows "0 \<le> exact_of t c"
proof -
  obtain q qr d dr b br where c: "c = ((q, qr), (d, dr), (b, br))" by (metis prod.collapse)
  with assms have "0 \<le> qr" "0 \<le> dr" "0 \<le> br"
    by (auto simp: combos_mem nonneg_weights_def list_all_iff)
  then show ?thesis using assms(1) by (simp add: c exact_of_def)
qed

lemma item_of_count: "fi_count (item_of t c) = py_int (exact_of t c)"
  by (cases c) (auto simp: item_of_def)

lemma item_of_exact: "fi_exact_count (item_of t c) = exact_of t c"
  by (cases c) (auto simp: item_of_def)

lemma fractional_distribution_count_nonneg:
  assumes "0 \<le> t" "nonneg_weights qd" "nonneg_weights dd" "nonneg_weights bd"
      and "kv \<in> set (fractional_distribution t qd dd bd)"
  shows "0 \<le> fi_count (snd kv)"
proof -
  have "(fst kv, snd kv) \<in> set (fractional_distribution t qd dd bd)"
    using assms(5) by simp
  from fractional_distribution_items [OF this]
  obtain c where c: "c \<in> set (combos qd dd bd)" "snd kv = item_of t c"
    by blast
  have "0 \<le> exact_of t c" using exact_of_nonneg [OF assms(1-4) c(1)] .
  then show ?thesis by (simp add: c(2) item_of_count py_int_def)
qed

lemma awarded_distribution_count_nonneg:
  assumes "0 \<le> t" "nonneg_weights qd" "nonneg_weights dd" "nonneg_weights bd"
      and "kv \<in> set (awarded_distribution t qd dd bd)"
  shows "0 \<le> fi_count (snd kv)"
proof -
  from assms(5) have "\<exists>kv' \<in> set (fractional_distribution t qd dd bd).
      kv = kv' \<or> kv = (fst kv', add_one (snd kv'))"
    unfolding awarded_distribution_map Let_def by (auto split: if_splits)
  then obtain kv' where kv': "kv' \<in> set (fractional_distribution t qd dd bd)"
      and "kv = kv' \<or> kv = (fst kv', add_one (snd kv'))"
    by blast
  then show ?thesis
    using fractional_distribution_count_nonneg [OF assms(1-4) kv'] by (auto simp: add_one_def)
qed

lemma total_count_remove_zero:
  assumes "distinct (map fst fd)" "\<forall>kv \<in> set fd. 0 \<le> fi_count (snd kv)"
  shows "total_count (remove_zero fd) = sum_list (map (\<lambda>kv. fi_count (snd kv)) fd)"
proof -
  have "total_count (remove_zero fd)
          = sum_list (map (\<lambda>kv. fi_count (snd kv)) (filter (\<lambda>kv. fi_count (snd kv) > 0) fd))"
    by (simp add: total_count_def remove_zero_map [OF assms(1)] comp_def clean_def)
  also have "\<dots> = sum_list (map (\<lambda>kv. fi_count (snd kv)) fd)"
    using assms(2) by (intro sum_list_filter_pos) simp
  finally show ?thesis .
qed

lemma total_count_formula:
  assumes "0 \<le> t" "nonneg_weights qd" "nonneg_weights dd" "nonneg_weights bd"
  shows "total_count (calculate_question_distribution t qd dd bd)
           = current_total t qd dd bd
             + int (min (nat (t - current_total t qd dd bd))
                        (length (fractional_distribution t qd dd bd)))"
proof -
  have d: "distinct (map fst (awarded_distribution t qd dd bd))"
    by (simp add: awarded_distribution_keys fractional_distribution_keys_distinct)
  have "total_count (calculate_question_distribution t qd dd bd)
          = sum_list (map (\<lambda>kv. fi_count (snd kv)) (awarded_distribution t qd dd bd))"
    unfolding calculate_question_distribution_def
    using awarded_distribution_count_nonneg [OF assms]
    by (intro total_count_remove_zero [OF d]) blast
  then show ?thesis
    by (simp add: awarded_sum Let_def current_total_def remainder_of_def)
qed

lemma sum_exact_inner:
  "sum_list (map (exact_of t) (map (\<lambda>b. (q, d, b)) bd))
     = of_int t * snd q * snd d * weight_sum bd"
  by (induction bd) (auto simp: exact_of_def weight_sum_def algebra_simps split: prod.splits)

lemma sum_exact_middle:
  "sum_list (map (exact_of t) (concat (map (\<lambda>d. map (\<lambda>b. (q, d, b)) bd) dd)))
     = of_int t * snd q * weight_sum dd * weight_sum bd"
proof (induction dd)
  case Nil
  then show ?case by (simp add: weight_sum_def)
next
  case (Cons d dd)
  have "weight_sum (d # dd) = snd d + weight_sum dd" by (simp add: weight_sum_def)
  then show ?case
    using Cons sum_exact_inner [of t q d bd] by (simp add: algebra_simps)
qed

lemma sum_exact_combos:
  "sum_list (map (exact_of t) (combos qd dd bd))
     = of_int t * weight_sum qd * weight_sum dd * weight_sum bd"
proof (induction qd)
  case Nil
  then show ?case by (simp add: weight_sum_def combos_def)
next
  case (Cons q qd)
  have w: "weight_sum (q # qd) = snd q + weight_sum qd" by (simp add: weight_sum_def)
  have c: "combos (q # qd) dd bd = concat (map (\<lambda>d. map (\<lambda>b. (q, d, b)) bd) dd) @ combos qd dd bd"
    by (simp add: combos_def)
  show ?case
    unfolding c w using Cons sum_exact_middle [of t q bd dd] by (simp add: algebra_simps)
qed

lemma sum_floor_bounds:
  fixes f :: "'a \<Rightarrow> rat"
  shows "of_int (sum_list (map (\<lambda>x. \<lfloor>f x\<rfloor>) xs)) \<le> sum_list (map f xs)
       \<and> sum_list (map f xs) \<le> of_int (sum_list (map (\<lambda>x. \<lfloor>f x\<rfloor>) xs)) + of_nat (length xs)"
proof (induction xs)
  case Nil
  then show ?case by simp
next
  case (Cons x xs)
  have a: "of_int \<lfloor>f x\<rfloor> \<le> f x" by (rule of_int_floor_le)
  have b: "f x \<le> of_int \<lfloor>f x\<rfloor> + 1" by linarith
  have e1: "(of_int (sum_list (map (\<lambda>x. \<lfloor>f x\<rfloor>) (x # xs))) :: rat)
              = of_int \<lfloor>f x\<rfloor> + of_int (sum_list (map (\<lambda>x. \<lfloor>f x\<rfloor>) xs))"
    by simp
  have e2: "sum_list (map f (x # xs)) = f x + sum_list (map f xs)" by simp
  have e3: "(of_nat (length (x # xs)) :: rat) = 1 + of_nat (length xs)" by simp
  from Cons have i1: "of_int (sum_list (map (\<lambda>x. \<lfloor>f x\<rfloor>) xs)) \<le> sum_list (map f xs)"
    and i2: "sum_list (map f xs) \<le> of_int (sum_list (map (\<lambda>x. \<lfloor>f x\<rfloor>) xs)) + of_nat (length xs)"
    by simp_all
  show ?case
    unfolding e1 e2 e3 using a b i1 i2 by (intro conjI) linarith+
qed

lemma current_total_floor:
  assumes "0 \<le> t" "nonneg_weights qd" "nonneg_weights dd" "nonneg_weights bd"
      and "distinct (map key_of (combos qd dd bd))"
  shows "current_total t qd dd bd = sum_list (map (\<lambda>c. \<lfloor>exact_of t c\<rfloor>) (combos qd dd bd))"
proof -
  have "current_total t qd dd bd = sum_list (map (\<lambda>c. py_int (exact_of t c)) (combos qd dd bd))"
    by (simp add: current_total_def fractional_distribution_map [OF assms(5)] comp_def item_of_count)
  also have "\<dots> = sum_list (map (\<lambda>c. \<lfloor>exact_of t c\<rfloor>) (combos qd dd bd))"
    using exact_of_nonneg [OF assms(1-4)]
    by (intro arg_cong [where f = sum_list] map_cong refl) (simp add: py_int_def)
  finally show ?thesis .
qed

lemma total_count_normalised:
  assumes "0 \<le> t" "nonneg_weights qd" "nonneg_weights dd" "nonneg_weights bd"
      and "weight_sum qd = 1" "weight_sum dd = 1" "weight_sum bd = 1"
      and "distinct (map key_of (combos qd dd bd))"
  shows "total_count (calculate_question_distribution t qd dd bd) = t"
proof -
  let ?cs = "combos qd dd bd"
  let ?S = "current_total t qd dd bd"
  have S: "?S = sum_list (map (\<lambda>c. \<lfloor>exact_of t c\<rfloor>) ?cs)"
    using current_total_floor [OF assms(1-4) assms(8)] .
  have sum: "sum_list (map (exact_of t) ?cs) = of_int t"
    by (simp add: sum_exact_combos assms(5-7))
  have len: "length (fractional_distribution t qd dd bd) = length ?cs"
    by (simp add: fractional_distribution_map [OF assms(8)])
  have "of_int ?S \<le> (of_int t :: rat)" "(of_int t :: rat) \<le> of_int ?S + of_nat (length ?cs)"
    using sum_floor_bounds [of "exact_of t" ?cs] unfolding S sum by simp_all
  then have "?S \<le> t" "t \<le> ?S + int (length ?cs)"
    by linarith+
  then have "int (min (nat (t - ?S)) (length ?cs)) = t - ?S"
    by simp
  then show ?thesis
    using total_count_formula [OF assms(1-4)] by (simp add: len)
qed

subsection \<open>The counts of an allocation and the requested total\<close>




lemma sort_key_constant:
  assumes "\<forall>x \<in> set xs. f x = c"
  shows "sort_key f xs = xs"
proof -
  have "map f xs = replicate (length xs) c"
    using assms by (induction xs) auto
  then have "sorted (map f xs)" by (simp add: sorted_replicate)
  then show ?thesis by (rule sort_key_id_if_sorted)
qed

lemma sum_list_all_zero:
  fixes f :: "'a \<Rightarrow> int"
  shows "\<forall>x \<in> set xs. f x = 0 \<Longrightarrow> sum_list (map f xs) = 0"
  by (induction xs) auto

lemma map_take_keys:
  "distinct (map fst fd) \<Longrightarrow>
   map (\<lambda>kv. if fst kv \<in> set (take n (map fst fd)) then F kv else kv) fd
     = map F (take n fd) @ drop n fd"
proof (induction fd arbitrary: n)
  case Nil
  then show ?case by simp
next
  case (Cons p ps)
  show ?case
  proof (cases n)
    case 0
    then show ?thesis by simp
  next
    case (Suc m)
    have d: "distinct (map fst ps)" using Cons.prems by simp
    have "map (\<lambda>kv. if fst kv \<in> set (take n (map fst (p # ps))) then F kv else kv) (p # ps)
            = F p # map (\<lambda>kv. if fst kv \<in> set (fst p # take m (map fst ps)) then F kv else kv) ps"
      by (simp add: Suc)
    also have "map (\<lambda>kv. if fst kv \<in> set (fst p # take m (map fst ps)) then F kv else kv) ps
            = map (\<lambda>kv. if fst kv \<in> set (take m (map fst ps)) then F kv else kv) ps"
      using Cons.prems by (intro map_cong refl) (auto simp: image_iff)
    also have "\<dots> = map F (take m ps) @ drop m ps"
      by (rule Cons.IH [OF d])
    finally show ?thesis by (simp add: Suc)
  qed
qed

lemma exact_of_zero:
  assumes "all_zero qd \<or> all_zero dd \<or> all_zero bd" "c \<in> set (combos qd dd bd)"
  shows "exact_of t c = 0"
proof -
  obtain q qr d dr b br where c: "c = ((q, qr), (d, dr), (b, br))" by (metis prod.collapse)
  with assms have "qr = 0 \<or> dr = 0 \<or> br = 0"
    by (auto simp: combos_mem all_zero_def list_all_iff)
  then show ?thesis by (auto simp: c exact_of_def)
qed

lemma all_zero_items:
  assumes "all_zero qd \<or> all_zero dd \<or> all_zero bd"
      and "kv \<in> set (fractional_distribution t qd dd bd)"
  shows "fi_count (snd kv) = 0 \<and> fi_exact_count (snd kv) = 0"
proof -
  have "(fst kv, snd kv) \<in> set (fractional_distribution t qd dd bd)"
    using assms(2) by simp
  from fractional_distribution_items [OF this]
  obtain c where c: "c \<in> set (combos qd dd bd)" "snd kv = item_of t c"
    by blast
  show ?thesis
    using exact_of_zero [OF assms(1) c(1)] by (simp add: c(2) item_of_count item_of_exact py_int_def)
qed









subsection \<open>An all-zero proportion map\<close>

text \<open>
  C6 (as stated, refuted): with the all-zero question-type map the allocator raises nothing
  and returns an allocation; both combinations have exact count 0 and receive one unit of
  the remainder 2.
\<close>

theorem all_zero_map_returns_allocation:
  "calculate_question_distribution 2
     [(''mcq'', 0)] [(''basic'', 1)] [(''remember'', 1/2), (''apply'', 1/2)]
   = [(''mcq_basic_remember'',
        \<lparr> question_type = ''mcq'', difficulty = ''basic'', blooms_level = ''remember'', count = 1 \<rparr>),
      (''mcq_basic_apply'',
        \<lparr> question_type = ''mcq'', difficulty = ''basic'', blooms_level = ''apply'', count = 1 \<rparr>)]"
  by code_simp

text \<open>
  C6 (amended): if any of the three proportion maps is all-zero, the allocator returns an
  allocation: every exact count is 0, the remainder is the whole total, and the first
  \<open>min t n\<close> combination keys in first-seen order (\<open>n\<close> the number of keys) get count 1
  each; the other combinations are dropped.
\<close>

theorem all_zero_map_allocation:
  assumes "all_zero qd \<or> all_zero dd \<or> all_zero bd"
  shows "map (\<lambda>kv. (fst kv, count (snd kv))) (calculate_question_distribution t qd dd bd)
           = map (\<lambda>k. (k, 1)) (take (nat t) (map fst (fractional_distribution t qd dd bd)))"
proof -
  let ?fd = "fractional_distribution t qd dd bd"
  have z: "\<forall>kv \<in> set ?fd. fi_count (snd kv) = 0 \<and> fi_exact_count (snd kv) = 0"
    using all_zero_items [OF assms] by blast
  have d: "distinct (map fst ?fd)" by (rule fractional_distribution_keys_distinct)
  have "sum_list (map (\<lambda>kv. fi_count (snd kv)) ?fd) = 0"
    using z by (intro sum_list_all_zero) simp
  then have r: "remainder_of t ?fd = t" by (simp add: remainder_of_def)
  have "sort_key (\<lambda>kv. - frac_part (snd kv)) ?fd = ?fd"
    using z by (intro sort_key_constant [where c = 0]) (simp add: frac_part_def)
  then have k: "awarded_keys t ?fd = take (nat t) (map fst ?fd)"
    by (simp add: awarded_keys_def r sorted_keys_def)
  have a: "awarded_distribution t qd dd bd
             = map (\<lambda>kv. (fst kv, add_one (snd kv))) (take (nat t) ?fd) @ drop (nat t) ?fd"
    unfolding awarded_distribution_map Let_def k by (rule map_take_keys [OF d])
  have da: "distinct (map fst (awarded_distribution t qd dd bd))"
    by (simp add: awarded_distribution_keys d)
  have zt: "\<forall>kv \<in> set (take (nat t) ?fd). fi_count (snd kv) = 0"
    using z in_set_takeD [of _ "nat t" ?fd] by blast
  have zd: "\<forall>kv \<in> set (drop (nat t) ?fd). fi_count (snd kv) = 0"
    using z in_set_dropD [of _ "nat t" ?fd] by blast
  have f1: "filter (\<lambda>kv. fi_count (snd kv) > 0)
              (map (\<lambda>kv. (fst kv, add_one (snd kv))) (take (nat t) ?fd))
            = map (\<lambda>kv. (fst kv, add_one (snd kv))) (take (nat t) ?fd)"
    using zt by (intro filter_True) (auto simp: add_one_def)
  have f2: "filter (\<lambda>kv. fi_count (snd kv) > 0) (drop (nat t) ?fd) = []"
    using zd by (auto simp: filter_empty_conv)
  have "calculate_question_distribution t qd dd bd
          = map (\<lambda>kv. (fst kv, clean (snd kv)))
              (map (\<lambda>kv. (fst kv, add_one (snd kv))) (take (nat t) ?fd))"
    unfolding calculate_question_distribution_def remove_zero_map [OF da]
    unfolding a filter_append f1 f2 by simp
  then have "map (\<lambda>kv. (fst kv, count (snd kv))) (calculate_question_distribution t qd dd bd)
          = map (\<lambda>kv. (fst kv, fi_count (snd kv) + 1)) (take (nat t) ?fd)"
    by (simp add: comp_def clean_def add_one_def)
  also have "\<dots> = map (\<lambda>kv. (fst kv, 1)) (take (nat t) ?fd)"
    using zt by (intro map_cong refl) auto
  finally show ?thesis by (simp add: take_map comp_def)
qed

theorem all_zero_map_allocation_witness:
  "map (\<lambda>kv. (fst kv, count (snd kv)))
     (calculate_question_distribution 5
        [(''mcq'', 1/2), (''tf'', 1/2)] [(''basic'', 0), (''advanced'', 0)] [(''remember'', 1)])
   = map (\<lambda>k. (k, 1))
       (take (nat 5) (map fst (fractional_distribution 5
          [(''mcq'', 1/2), (''tf'', 1/2)] [(''basic'', 0), (''advanced'', 0)] [(''remember'', 1)])))"
  by (rule all_zero_map_allocation) code_simp

subsection \<open>At most one extra unit per combination\<close>



subsection \<open>Ties in the fractional part\<close>



section \<open>Properties of the parsers\<close>

lemma contains_sublist: "contains x s = sublist x s"
  by (induction s) (auto simp: sublist_Cons_right)

lemma sublist_trans: "sublist xs ys \<Longrightarrow> sublist ys zs \<Longrightarrow> sublist xs zs"
  by (rule sublist_order.order_trans)

lemma py_split_nonempty: "py_split sep s \<noteq> []"
  by (induction sep s rule: py_split.induct) (auto split: list.splits)

lemma py_split_length_pos: "0 < length (py_split sep s)"
  using py_split_nonempty [of sep s] by simp

lemma contains_split_length:
  "sep \<noteq> [] \<Longrightarrow> contains sep s \<Longrightarrow> 1 < length (py_split sep s)"
proof (induction sep s rule: py_split.induct)
  case (1 sep)
  then show ?case by simp
next
  case (2 sep c cs)
  show ?case
  proof (cases "prefix sep (c # cs)")
    case True
    then show ?thesis using "2.prems"(1) py_split_length_pos [of sep "drop (length sep) (c # cs)"]
      by simp
  next
    case False
    with "2.prems" have "contains sep cs" by simp
    with False "2.IH"(2) "2.prems"(1) have "1 < length (py_split sep cs)" by simp
    then show ?thesis using False by (auto split: list.splits)
  qed
qed

lemma idx_split_0 [simp]: "idx (py_split sep s) 0 = Inr (py_split sep s ! 0)"
  by (simp add: idx_def py_split_nonempty)

lemma idx_split_1:
  "sep \<noteq> [] \<Longrightarrow> contains sep s \<Longrightarrow> idx (py_split sep s) 1 = Inr (py_split sep s ! 1)"
  using contains_split_length [of sep s] by (simp add: idx_def)

lemma idx_split_Suc0:
  "sep \<noteq> [] \<Longrightarrow> contains sep s \<Longrightarrow> idx (py_split sep s) (Suc 0) = Inr (py_split sep s ! Suc 0)"
  using idx_split_1 [of sep s] by simp

lemma bind_Inr [simp]: "bind (Inr x) f = f x"
  by (simp add: bind_def)

lemma bind_Inl [simp]: "bind (Inl e) f = Inl e"
  by (simp add: bind_def)

lemma py_split_hd_prefix: "prefix (py_split sep s ! 0) s"
  by (induction sep s rule: py_split.induct) (auto split: list.splits)

lemma py_split_pieces_sublist:
  "p \<in> set (py_split sep s) \<Longrightarrow> sublist p s"
proof (induction sep s arbitrary: p rule: py_split.induct)
  case (1 sep)
  then show ?case by simp
next
  case (2 sep c cs)
  show ?case
  proof (cases "sep \<noteq> [] \<and> prefix sep (c # cs)")
    case True
    with "2.prems" have "p = [] \<or> p \<in> set (py_split sep (drop (length sep) (c # cs)))"
      by auto
    then show ?thesis
    proof
      assume "p = []" then show ?thesis by simp
    next
      assume "p \<in> set (py_split sep (drop (length sep) (c # cs)))"
      with "2.IH"(1) True have "sublist p (drop (length sep) (c # cs))" by blast
      then show ?thesis using sublist_drop [of "length sep" "c # cs"] by (rule sublist_trans)
    qed
  next
    case False
    obtain p0 ps where sp: "py_split sep cs = p0 # ps"
      using py_split_nonempty [of sep cs] by (cases "py_split sep cs") auto
    with False "2.prems" have "p = c # p0 \<or> p \<in> set ps" by auto
    then show ?thesis
    proof
      assume p: "p = c # p0"
      have "prefix p0 cs" using py_split_hd_prefix [of sep cs] sp by simp
      then show ?thesis by (simp add: p)
    next
      assume "p \<in> set ps"
      then have "p \<in> set (py_split sep cs)" by (simp add: sp)
      with "2.IH"(2) False have "sublist p cs" by blast
      then show ?thesis by (simp add: sublist_Cons_right)
    qed
  qed
qed

lemma py_split_nth_sublist:
  "i < length (py_split sep s) \<Longrightarrow> sublist (py_split sep s ! i) s"
  by (rule py_split_pieces_sublist [of _ sep]) simp

lemma lacks_piece:
  assumes "\<not> contains x s" "i < length (py_split sep s)"
  shows "\<not> contains x (py_split sep s ! i)"
  using assms py_split_nth_sublist [OF assms(2)] sublist_trans [of x "py_split sep s ! i" s]
  by (auto simp: contains_sublist)

declare py_split.simps [simp del] py_split_max.simps [simp del] contains.simps [simp del]

lemma prepend_answer:
  "contains ''EXPLANATION:'' (''ANSWER:'' @ p) = contains ''EXPLANATION:'' p"
  "contains ''DISTRACTOR1:'' (''ANSWER:'' @ p) = contains ''DISTRACTOR1:'' p"
  "contains ''DISTRACTOR2:'' (''ANSWER:'' @ p) = contains ''DISTRACTOR2:'' p"
  "contains ''DISTRACTOR3:'' (''ANSWER:'' @ p) = contains ''DISTRACTOR3:'' p"
  by (simp_all add: contains.simps)

lemma prepend_explanation:
  "contains ''DISTRACTOR1:'' (''EXPLANATION:'' @ p) = contains ''DISTRACTOR1:'' p"
  "contains ''DISTRACTOR2:'' (''EXPLANATION:'' @ p) = contains ''DISTRACTOR2:'' p"
  "contains ''DISTRACTOR3:'' (''EXPLANATION:'' @ p) = contains ''DISTRACTOR3:'' p"
  by (simp_all add: contains.simps)

lemma cut_question_eq:
  "cut_question block =
     Inr (if contains ''ANSWER:'' block
          then (Some (strip (py_split ''ANSWER:'' block ! 0)), ''ANSWER:'' @ py_split ''ANSWER:'' block ! 1)
          else (None, block))"
  by (simp add: cut_question_def idx_split_1 idx_split_Suc0)

lemma cut_answer_eq:
  "cut_answer block =
     Inr (if contains ''ANSWER:'' block \<and> contains ''EXPLANATION:'' block
          then (Some (strip (py_split ''EXPLANATION:'' (py_split ''ANSWER:'' block ! 1) ! 0)),
                ''EXPLANATION:'' @ py_split ''EXPLANATION:'' block ! 1)
          else (None, block))"
  by (simp add: cut_answer_def idx_split_1 idx_split_Suc0)

lemma mcq_explanation_of_eq:
  "mcq_explanation_of block =
     Inr (if contains ''EXPLANATION:'' block
          then Some (if contains ''DISTRACTOR1:'' (py_split ''EXPLANATION:'' block ! 1)
                     then strip (py_split ''DISTRACTOR1:'' (py_split ''EXPLANATION:'' block ! 1) ! 0)
                     else strip (py_split ''EXPLANATION:'' block ! 1))
          else None)"
  by (simp add: mcq_explanation_of_def idx_split_1 idx_split_Suc0)

lemma next_distractor_total:
  "\<exists>d. (case keys of
           [] \<Rightarrow> Inr (strip after)
         | next_key # _ \<Rightarrow>
             if next_key \<noteq> [] \<and> contains next_key block
             then bind (idx (py_split next_key after) 0) (\<lambda>d. Inr (strip d))
             else Inr (strip after)) = Inr d"
  by (cases keys) simp_all

lemma extract_distractors_total:
  "\<forall>k \<in> set keys. k \<noteq> [] \<Longrightarrow> \<exists>ds. extract_distractors block keys = Inr ds"
proof (induction block keys rule: extract_distractors.induct)
  case (1 block)
  then show ?case by (simp add: extract_distractors.simps)
next
  case (2 block key keys)
  then obtain ds where ds: "extract_distractors block keys = Inr ds" by auto
  from "2.prems" have key: "key \<noteq> []" by simp
  show ?case
  proof (cases "contains key block")
    case True
    obtain d where d: "(case keys of
           [] \<Rightarrow> Inr (strip (py_split key block ! 1))
         | next_key # _ \<Rightarrow>
             if next_key \<noteq> [] \<and> contains next_key block
             then bind (idx (py_split next_key (py_split key block ! 1)) 0) (\<lambda>d. Inr (strip d))
             else Inr (strip (py_split key block ! 1))) = Inr d"
      using next_distractor_total [where keys = keys and after = "py_split key block ! 1"
          and block = block] by blast
    have "extract_distractors block (key # keys) = Inr (d # ds)"
      by (simp only: extract_distractors.simps(2) True if_True idx_split_1 [OF key True]
            bind_Inr d ds)
    then show ?thesis by blast
  next
    case False
    then show ?thesis using ds by simp
  qed
qed

lemma extract_distractors_none:
  "\<forall>k \<in> set keys. \<not> contains k block \<Longrightarrow> extract_distractors block keys = Inr []"
  by (induction block keys rule: extract_distractors.induct) simp_all

lemma lacks_after_answer_cut:
  assumes "\<not> contains x block" "contains ''ANSWER:'' block"
      and "\<And>p. contains x (''ANSWER:'' @ p) = contains x p"
  shows "\<not> contains x (''ANSWER:'' @ py_split ''ANSWER:'' block ! 1)"
proof -
  have "1 < length (py_split ''ANSWER:'' block)"
    using assms(2) by (intro contains_split_length) simp_all
  from lacks_piece [OF assms(1) this] show ?thesis by (subst assms(3))
qed

lemma lacks_after_explanation_cut:
  assumes "\<not> contains x block" "contains ''EXPLANATION:'' block"
      and "\<And>p. contains x (''EXPLANATION:'' @ p) = contains x p"
  shows "\<not> contains x (''EXPLANATION:'' @ py_split ''EXPLANATION:'' block ! 1)"
proof -
  have "1 < length (py_split ''EXPLANATION:'' block)"
    using assms(2) by (intro contains_split_length) simp_all
  from lacks_piece [OF assms(1) this] show ?thesis by (subst assms(3))
qed

lemma after_cuts_lacks:
  assumes "\<not> contains x block0"
      and "\<And>p. contains x (''ANSWER:'' @ p) = contains x p"
      and "\<And>p. contains x (''EXPLANATION:'' @ p) = contains x p"
  shows "\<not> contains x (after_cuts block0)"
proof -
  define block1 where "block1 = (if contains ''ANSWER:'' block0
                    then ''ANSWER:'' @ py_split ''ANSWER:'' block0 ! 1 else block0)"
  have b1: "\<not> contains x block1"
    unfolding block1_def using assms(1) lacks_after_answer_cut [OF assms(1) _ assms(2)] by simp
  have "\<not> contains x (if contains ''ANSWER:'' block1 \<and> contains ''EXPLANATION:'' block1
         then ''EXPLANATION:'' @ py_split ''EXPLANATION:'' block1 ! 1 else block1)"
    using b1 lacks_after_explanation_cut [OF b1 _ assms(3)] by simp
  then show ?thesis unfolding after_cuts_def Let_def block1_def .
qed

lemma after_cuts_lacks_explanation:
  assumes "\<not> contains ''EXPLANATION:'' block0"
  shows "\<not> contains ''EXPLANATION:'' (after_cuts block0)"
proof -
  define block1 where "block1 = (if contains ''ANSWER:'' block0
                    then ''ANSWER:'' @ py_split ''ANSWER:'' block0 ! 1 else block0)"
  have b1: "\<not> contains ''EXPLANATION:'' block1"
    unfolding block1_def
    using assms lacks_after_answer_cut [OF assms _ prepend_answer(1)] by simp
  then have "after_cuts block0 = block1"
    unfolding after_cuts_def Let_def block1_def by simp
  with b1 show ?thesis by simp
qed

lemma cut_steps:
  "bind (cut_question block0) (\<lambda>(q, block1). bind (cut_answer block1) (\<lambda>(a, block2). f q a block2))
     = f (if contains ''ANSWER:'' block0 then Some (strip (py_split ''ANSWER:'' block0 ! 0)) else None)
         (fst (projr (cut_answer (snd (projr (cut_question block0))))))
         (after_cuts block0)"
proof -
  define q where "q = (if contains ''ANSWER:'' block0
                       then Some (strip (py_split ''ANSWER:'' block0 ! 0)) else None)"
  define block1 where "block1 = (if contains ''ANSWER:'' block0
                    then ''ANSWER:'' @ py_split ''ANSWER:'' block0 ! 1 else block0)"
  define block2 where "block2 = (if contains ''ANSWER:'' block1 \<and> contains ''EXPLANATION:'' block1
         then ''EXPLANATION:'' @ py_split ''EXPLANATION:'' block1 ! 1 else block1)"
  have cq: "cut_question block0 = Inr (q, block1)"
    unfolding q_def block1_def by (simp add: cut_question_eq)
  have ca: "cut_answer block1 = Inr (fst (projr (cut_answer block1)), block2)"
    unfolding block2_def by (simp add: cut_answer_eq)
  have b2: "block2 = after_cuts block0"
    unfolding after_cuts_def Let_def block2_def block1_def ..
  have "bind (cut_question block0) (\<lambda>(q, block1). bind (cut_answer block1) (\<lambda>(a, block2). f q a block2))
          = bind (cut_answer block1) (\<lambda>(a, block2). f q a block2)"
    by (simp add: cq)
  also have "\<dots> = f q (fst (projr (cut_answer block1))) block2"
    by (subst ca) simp
  finally show ?thesis
    unfolding b2 by (simp add: cq q_def)
qed

lemma cut_answer_none:
  assumes "\<not> contains ''ANSWER:'' block0 \<or> \<not> contains ''EXPLANATION:'' block0"
  shows "fst (projr (cut_answer (snd (projr (cut_question block0))))) = None"
proof (cases "contains ''ANSWER:'' block0")
  case True
  with assms have e: "\<not> contains ''EXPLANATION:'' block0" by simp
  have "\<not> contains ''EXPLANATION:'' (''ANSWER:'' @ py_split ''ANSWER:'' block0 ! 1)"
    using lacks_after_answer_cut [OF e True prepend_answer(1)] .
  then have "fst (projr (cut_answer (''ANSWER:'' @ py_split ''ANSWER:'' block0 ! 1))) = None"
    by (subst cut_answer_eq) simp
  then show ?thesis using True by (subst cut_question_eq) simp
next
  case False
  then show ?thesis by (simp add: cut_question_eq cut_answer_eq)
qed

lemma extract_mcq_fields:
  "\<exists>q. extract_mcq qid block0 = Inr q
     \<and> mcq_question_id q = qid \<and> mcq_difficulty q = [] \<and> mcq_blooms_level q = []
     \<and> mcq_question_type q = ''mcq''
     \<and> (\<not> contains ''ANSWER:'' block0 \<longrightarrow> mcq_question q = [] \<and> mcq_answer q = [])
     \<and> (\<not> contains ''EXPLANATION:'' block0 \<longrightarrow> mcq_answer q = [] \<and> mcq_explanation q = [])
     \<and> ((\<forall>k \<in> set distractor_keys. \<not> contains k block0) \<longrightarrow> mcq_distractors q = [])"
proof -
  obtain ds where ds: "extract_distractors (after_cuts block0) distractor_keys = Inr ds"
    using extract_distractors_total [of distractor_keys "after_cuts block0"]
    by (auto simp: distractor_keys_def)
  obtain e where e: "mcq_explanation_of (after_cuts block0) = Inr e"
    by (simp add: mcq_explanation_of_eq)
  let ?q = "if contains ''ANSWER:'' block0 then Some (strip (py_split ''ANSWER:'' block0 ! 0)) else None"
  let ?a = "fst (projr (cut_answer (snd (projr (cut_question block0)))))"
  let ?r = "\<lparr> mcq_question_id = qid,
           mcq_question = (case ?q of None \<Rightarrow> [] | Some v \<Rightarrow> v),
           mcq_answer = (case ?a of None \<Rightarrow> [] | Some v \<Rightarrow> v),
           mcq_explanation = (case e of None \<Rightarrow> [] | Some v \<Rightarrow> v),
           mcq_distractors = ds,
           mcq_difficulty = [],
           mcq_blooms_level = [],
           mcq_question_type = ''mcq'' \<rparr>"
  have r: "extract_mcq qid block0 = Inr ?r"
    unfolding extract_mcq_def cut_steps e ds bind_Inr ..
  have e_none: "e = None" if "\<not> contains ''EXPLANATION:'' block0"
    using e after_cuts_lacks_explanation [OF that] by (simp add: mcq_explanation_of_eq)
  have ds_nil: "ds = []" if "\<forall>k \<in> set distractor_keys. \<not> contains k block0"
  proof -
    from that have n: "\<not> contains ''DISTRACTOR1:'' block0" "\<not> contains ''DISTRACTOR2:'' block0"
        "\<not> contains ''DISTRACTOR3:'' block0"
      by (simp_all add: distractor_keys_def)
    have "\<not> contains ''DISTRACTOR1:'' (after_cuts block0)"
      by (rule after_cuts_lacks [OF n(1) prepend_answer(2) prepend_explanation(1)])
    moreover have "\<not> contains ''DISTRACTOR2:'' (after_cuts block0)"
      by (rule after_cuts_lacks [OF n(2) prepend_answer(3) prepend_explanation(2)])
    moreover have "\<not> contains ''DISTRACTOR3:'' (after_cuts block0)"
      by (rule after_cuts_lacks [OF n(3) prepend_answer(4) prepend_explanation(3)])
    ultimately have "\<forall>k \<in> set distractor_keys. \<not> contains k (after_cuts block0)"
      by (simp add: distractor_keys_def)
    from extract_distractors_none [OF this] ds show ?thesis by simp
  qed
  show ?thesis
    apply (rule exI [of _ ?r])
    apply (intro conjI impI r)
    using e_none ds_nil cut_answer_none [of block0]
    apply simp_all
    done
qed

lemma parse_blocks_total:
  assumes "\<And>qid b. \<exists>q. extract qid b = Inr q"
  shows "\<exists>qs. parse_blocks extract assign uuid sq n qi bs = Inr qs \<and> length qs = length bs \<and>
           (\<forall>i < length bs. qs ! i =
              (if qi + i < length sq
               then assign (sq ! (qi + i)) (projr (extract (uuid (n + i)) (bs ! i)))
               else projr (extract (uuid (n + i)) (bs ! i))))"
proof (induction bs arbitrary: n qi)
  case Nil
  then show ?case by simp
next
  case (Cons b bs)
  obtain q where q: "extract (uuid n) b = Inr q" using assms by blast
  define q' where "q' = (if qi < length sq then assign (sq ! qi) q else q)"
  define qi' where "qi' = (if qi < length sq then qi + 1 else qi)"
  from Cons.IH [of "n + 1" qi'] obtain qs where
    qs: "parse_blocks extract assign uuid sq (n + 1) qi' bs = Inr qs" "length qs = length bs"
    and nth: "\<And>i. i < length bs \<Longrightarrow> qs ! i =
              (if qi' + i < length sq
               then assign (sq ! (qi' + i)) (projr (extract (uuid (n + 1 + i)) (bs ! i)))
               else projr (extract (uuid (n + 1 + i)) (bs ! i)))"
    by blast
  have res: "parse_blocks extract assign uuid sq n qi (b # bs) = Inr (q' # qs)"
    using q qs(1) by (cases "qi < length sq") (simp_all add: q'_def qi'_def)
  have "(q' # qs) ! i =
              (if qi + i < length sq
               then assign (sq ! (qi + i)) (projr (extract (uuid (n + i)) ((b # bs) ! i)))
               else projr (extract (uuid (n + i)) ((b # bs) ! i)))" if "i < length (b # bs)" for i
  proof (cases i)
    case 0
    then show ?thesis by (simp add: q'_def q)
  next
    case (Suc j)
    with that have j: "j < length bs" by simp
    show ?thesis
      using nth [OF j] by (auto simp: Suc qi'_def)
  qed
  with res qs(2) show ?case by simp
qed

lemma extract_mcq_total: "\<exists>q. extract_mcq qid b = Inr q"
  using extract_mcq_fields [of qid b] by blast

lemma extract_mcq_no_metadata:
  "mcq_difficulty (projr (extract_mcq qid b)) = [] \<and> mcq_blooms_level (projr (extract_mcq qid b)) = []"
  using extract_mcq_fields [of qid b] by auto

lemma parse_mcq_response_nth:
  "\<exists>qs. parse_mcq_response uuid response_text bd = Inr qs
     \<and> length qs = length (surviving_blocks ''QUESTION:'' response_text)
     \<and> (\<forall>i < length qs. qs ! i =
          (if i < length (create_question_sequence bd)
           then assign_mcq (create_question_sequence bd ! i)
                  (projr (extract_mcq (uuid i) (surviving_blocks ''QUESTION:'' response_text ! i)))
           else projr (extract_mcq (uuid i) (surviving_blocks ''QUESTION:'' response_text ! i))))"
  using parse_blocks_total [of extract_mcq assign_mcq uuid "create_question_sequence bd" 0 0
      "surviving_blocks ''QUESTION:'' response_text", OF extract_mcq_total]
  by (auto simp: parse_mcq_response_def)

lemma assign_mcq_fields:
  "mcq_explanation (assign_mcq p q) = mcq_explanation q"
  "mcq_answer (assign_mcq p q) = mcq_answer q"
  "mcq_question (assign_mcq p q) = mcq_question q"
  "mcq_distractors (assign_mcq p q) = mcq_distractors q"
  by (simp_all add: assign_mcq_def)

lemma extract_mcq_missing:
  "(\<not> contains ''ANSWER:'' b \<longrightarrow>
      mcq_question (projr (extract_mcq qid b)) = [] \<and> mcq_answer (projr (extract_mcq qid b)) = [])
   \<and> (\<not> contains ''EXPLANATION:'' b \<longrightarrow>
      mcq_answer (projr (extract_mcq qid b)) = [] \<and> mcq_explanation (projr (extract_mcq qid b)) = [])
   \<and> ((\<forall>k \<in> set distractor_keys. \<not> contains k b) \<longrightarrow>
      mcq_distractors (projr (extract_mcq qid b)) = [])"
  using extract_mcq_fields [of qid b] by auto

subsection \<open>Pairing the blocks with the generation sequence\<close>

text \<open>
  C3: for every completion text and every question breakdown, whose expansion is the
  generation sequence, the multiple-choice parser does not fail and returns one record for
  each surviving block, in textual order; the (difficulty, blooms\_level) fields of the
  records are the first pairs of the sequence, in order, and the records beyond the length
  of the sequence have both fields empty. So \<open>N\<close> blocks and a sequence of length \<open>N\<close> give
  \<open>N\<close> records carrying exactly the sequence.
\<close>

theorem mcq_blocks_paired_with_sequence:
  "\<exists>qs. parse_mcq_response uuid response_text bd = Inr qs
     \<and> length qs = length (surviving_blocks ''QUESTION:'' response_text)
     \<and> map (\<lambda>q. (mcq_difficulty q, mcq_blooms_level q)) qs
         = take (length (surviving_blocks ''QUESTION:'' response_text)) (create_question_sequence bd)
           @ replicate (length (surviving_blocks ''QUESTION:'' response_text)
                          - length (create_question_sequence bd)) ([], [])"
proof -
  let ?bs = "surviving_blocks ''QUESTION:'' response_text"
  let ?sq = "create_question_sequence bd"
  from parse_mcq_response_nth [of uuid response_text bd] obtain qs where
    r: "parse_mcq_response uuid response_text bd = Inr qs" and len: "length qs = length ?bs"
    and nth: "\<And>i. i < length qs \<Longrightarrow> qs ! i =
          (if i < length ?sq
           then assign_mcq (?sq ! i) (projr (extract_mcq (uuid i) (?bs ! i)))
           else projr (extract_mcq (uuid i) (?bs ! i)))"
    by blast
  have "map (\<lambda>q. (mcq_difficulty q, mcq_blooms_level q)) qs
          = take (length ?bs) ?sq @ replicate (length ?bs - length ?sq) ([], [])"
  proof (rule nth_equalityI)
    show "length (map (\<lambda>q. (mcq_difficulty q, mcq_blooms_level q)) qs)
            = length (take (length ?bs) ?sq @ replicate (length ?bs - length ?sq) ([], []))"
      by (simp add: len)
  next
    fix i assume "i < length (map (\<lambda>q. (mcq_difficulty q, mcq_blooms_level q)) qs)"
    then have i: "i < length qs" by simp
    show "map (\<lambda>q. (mcq_difficulty q, mcq_blooms_level q)) qs ! i
            = (take (length ?bs) ?sq @ replicate (length ?bs - length ?sq) ([], [])) ! i"
    proof (cases "i < length ?sq")
      case True
      then show ?thesis
        using i len nth [OF i] by (simp add: nth_append assign_mcq_def)
    next
      case False
      then show ?thesis
        using i len nth [OF i] extract_mcq_no_metadata [of "uuid i" "?bs ! i"]
        by (simp add: nth_append)
    qed
  qed
  with r len show ?thesis by blast
qed

theorem mcq_blocks_paired_with_sequence_witness:
  "\<exists>qs. parse_mcq_response (\<lambda>n. ''id'') scenario_b_text scenario_b_breakdown = Inr qs
     \<and> length qs = 2
     \<and> map (\<lambda>q. (mcq_difficulty q, mcq_blooms_level q)) qs
         = [(''basic'', ''remember''), (''advanced'', ''analyze'')]"
proof -
  have b: "length (surviving_blocks ''QUESTION:'' scenario_b_text) = 2"
    by code_simp
  have s: "create_question_sequence scenario_b_breakdown
             = [(''basic'', ''remember''), (''advanced'', ''analyze'')]"
    by code_simp
  show ?thesis
    using mcq_blocks_paired_with_sequence [of "\<lambda>n. ''id''" scenario_b_text scenario_b_breakdown]
    unfolding b s by simp
qed

subsection \<open>Missing sub-delimiters\<close>

text \<open>
  C8: the multiple-choice parser never fails, whatever the text, and returns one record for
  each candidate block; a block without \<^verbatim>\<open>EXPLANATION:\<close> gives a record with an empty
  explanation, a block without \<^verbatim>\<open>ANSWER:\<close> a record with an empty answer, and a block
  without any distractor delimiter a record with no distractor.
\<close>

theorem mcq_missing_delimiter_gives_empty_field:
  "\<exists>qs. parse_mcq_response uuid response_text bd = Inr qs
     \<and> length qs = length (surviving_blocks ''QUESTION:'' response_text)
     \<and> (\<forall>i < length qs.
          (\<not> contains ''EXPLANATION:'' (surviving_blocks ''QUESTION:'' response_text ! i)
             \<longrightarrow> mcq_explanation (qs ! i) = [])
        \<and> (\<not> contains ''ANSWER:'' (surviving_blocks ''QUESTION:'' response_text ! i)
             \<longrightarrow> mcq_answer (qs ! i) = [])
        \<and> ((\<forall>k \<in> set distractor_keys.
               \<not> contains k (surviving_blocks ''QUESTION:'' response_text ! i))
             \<longrightarrow> mcq_distractors (qs ! i) = []))"
proof -
  let ?bs = "surviving_blocks ''QUESTION:'' response_text"
  from parse_mcq_response_nth [of uuid response_text bd] obtain qs where
    r: "parse_mcq_response uuid response_text bd = Inr qs" and len: "length qs = length ?bs"
    and nth: "\<And>i. i < length qs \<Longrightarrow> qs ! i =
          (if i < length (create_question_sequence bd)
           then assign_mcq (create_question_sequence bd ! i) (projr (extract_mcq (uuid i) (?bs ! i)))
           else projr (extract_mcq (uuid i) (?bs ! i)))"
    by blast
  have "(\<not> contains ''EXPLANATION:'' (?bs ! i) \<longrightarrow> mcq_explanation (qs ! i) = [])
        \<and> (\<not> contains ''ANSWER:'' (?bs ! i) \<longrightarrow> mcq_answer (qs ! i) = [])
        \<and> ((\<forall>k \<in> set distractor_keys. \<not> contains k (?bs ! i)) \<longrightarrow> mcq_distractors (qs ! i) = [])"
    if "i < length qs" for i
    using nth [OF that] extract_mcq_missing [of "?bs ! i" "uuid i"]
    by (simp add: assign_mcq_fields)
  with r len show ?thesis by blast
qed

theorem mcq_missing_delimiter_gives_empty_field_witness:
  "\<exists>qs. parse_mcq_response (\<lambda>n. ''id'') no_explanation_text scenario_b_breakdown = Inr qs
     \<and> length qs = 1 \<and> mcq_explanation (qs ! 0) = []"
proof -
  have b: "surviving_blocks ''QUESTION:'' no_explanation_text = [''Q1'' @ LF @ ''ANSWER: A1'']"
    by code_simp
  have e: "\<not> contains ''EXPLANATION:'' (''Q1'' @ LF @ ''ANSWER: A1'')"
    by code_simp
  show ?thesis
    using mcq_missing_delimiter_gives_empty_field
            [of "\<lambda>n. ''id''" no_explanation_text scenario_b_breakdown] e
    unfolding b by auto
qed

subsection \<open>Numbered and unnumbered answer lines\<close>

lemma fib_unnumbered_digit_line:
  "fib_answer_line ''4 p.m. Eastern'' = Inr [''Eastern'']"
  by code_simp

text \<open>
  C9 (the code at the failing input): the answer line \<^verbatim>\<open>4 p.m. Eastern\<close> does not start
  with digits followed by a period and a space, so by the claim it is one answer, taken
  verbatim. The test of the source is \<^verbatim>\<open>line[0].isdigit() and '. ' in line\<close>: the line starts
  with a digit and has a period and a space somewhere, so everything up to that first
  \<^verbatim>\<open>. \<close> is cut off and the answer recorded is \<^verbatim>\<open>Eastern\<close>.
\<close>

theorem fib_unnumbered_digit_line_truncated:
  "parse_fib_response (\<lambda>n. ''id'') unnumbered_digit_text []
     = Inr [\<lparr> fib_question_id = ''id'',
               fib_question = ''The meeting starts at ___.'',
               fib_answer = [''Eastern''],
               fib_explanation = ''The schedule says so.'',
               fib_difficulty = [],
               fib_blooms_level = [],
               fib_question_type = ''fib'' \<rparr>]"
  by code_simp

section \<open>Properties of the pipelines and the orchestrator\<close>

lemma type_parser_simps:
  "type_parser ''mcq'' = (\<lambda>uuid completion breakdown.
      bind (parse_mcq_response uuid completion breakdown) (\<lambda>qs. Inr (map MCQ qs)))"
  "type_parser ''fib'' = (\<lambda>uuid completion breakdown.
      bind (parse_fib_response uuid completion breakdown) (\<lambda>qs. Inr (map FIB qs)))"
  "type_parser ''tf'' = (\<lambda>uuid completion breakdown.
      bind (parse_tf_response uuid completion breakdown) (\<lambda>qs. Inr (map TF qs)))"
  by (intro ext, simp add: type_parser_def)+

lemma generate_for_type_known:
  assumes "qtype \<in> set question_types"
  shows "generate_for_type e qtype chapter content_id objectives n dd bd chapter_content mc mx
           = run_generator e qtype (type_parser qtype) (no_valid_message qtype)
               chapter content_id objectives n dd bd (Some chapter_content) mc mx"
proof -
  from assms consider "qtype = ''mcq''" | "qtype = ''fib''" | "qtype = ''tf''"
    by (auto simp: question_types_def)
  then show ?thesis
  proof cases
    case 1
    then show ?thesis
      by (simp add: generate_for_type_def generate_mcqs_def type_parser_simps no_valid_message_def)
  next
    case 2
    then show ?thesis
      by (simp add: generate_for_type_def generate_fill_in_blank_def type_parser_simps
            no_valid_message_def)
  next
    case 3
    then show ?thesis
      by (simp add: generate_for_type_def generate_true_false_def type_parser_simps
            no_valid_message_def)
  qed
qed

lemma generate_for_type_unknown:
  assumes "qtype \<notin> set question_types"
  shows "generate_for_type e qtype chapter content_id objectives n dd bd chapter_content mc mx
           = Inl (ValueError (''Unknown question type: '' @ qtype))"
  using assms by (simp add: generate_for_type_def question_types_def)

lemma run_generator_no_content:
  "run_generator e tag parse msg chapter content_id objectives n dd bd (Some []) mc mx
     = Inl (ValueError (no_content_message chapter content_id))"
  by (simp add: run_generator_def)

lemma run_generator_completion_error:
  assumes "chapter_content \<noteq> []"
      and "generate_completion e tag chapter_content n
             (calculate_question_distribution n [(tag, 1)] dd bd) = Inl ex"
  shows "run_generator e tag parse msg chapter content_id objectives n dd bd
           (Some chapter_content) mc mx = Inl ex"
  using assms by (simp add: run_generator_def Let_def)

lemma run_generator_no_questions:
  assumes "chapter_content \<noteq> []"
      and "generate_completion e tag chapter_content n
             (calculate_question_distribution n [(tag, 1)] dd bd) = Inr completion"
      and "parse (uuid4 e tag) completion (calculate_question_distribution n [(tag, 1)] dd bd) = Inr []"
  shows "run_generator e tag parse msg chapter content_id objectives n dd bd
           (Some chapter_content) mc mx = Inl (ValueError msg)"
  using assms by (simp add: run_generator_def Let_def)

lemma sync_error:
  assumes "generate_for_type e qtype chapter content_id objectives (sum_list (map count configs))
             dd bd chapter_content mc mx = Inl ex"
  shows "generate_single_question_type_sync e qtype configs chapter_content chapter content_id
           objectives dd bd mc mx = (qtype, None, None, Some (str_of ex))"
  using assms by (simp add: generate_single_question_type_sync_def Let_def)

subsection \<open>Exceptions inside a pipeline\<close>

text \<open>
  C4: whatever the collaborators do, a pipeline returns a result tuple. Every exception of
  the generator is returned as \<^verbatim>\<open>(question_type, None, None, str(e))\<close>: in particular
  missing content, a failure of the completion service, a parse that yields no record
  (the \<^verbatim>\<open>ValueError\<close> "No valid ... could be parsed", not an empty success) and an unknown
  question type.
\<close>

theorem pipeline_exceptions_become_error_results:
  "(\<forall>ex. generate_for_type e qtype chapter content_id objectives (sum_list (map count configs))
            dd bd chapter_content mc mx = Inl ex
        \<longrightarrow> generate_single_question_type_sync e qtype configs chapter_content chapter content_id
              objectives dd bd mc mx = (qtype, None, None, Some (str_of ex)))
   \<and> (qtype \<in> set question_types \<and> chapter_content = []
        \<longrightarrow> generate_single_question_type_sync e qtype configs chapter_content chapter content_id
              objectives dd bd mc mx
            = (qtype, None, None, Some (no_content_message chapter content_id)))
   \<and> (\<forall>ex. qtype \<in> set question_types \<and> chapter_content \<noteq> []
          \<and> generate_completion e qtype chapter_content (sum_list (map count configs))
                (type_breakdown qtype configs dd bd) = Inl ex
        \<longrightarrow> generate_single_question_type_sync e qtype configs chapter_content chapter content_id
              objectives dd bd mc mx = (qtype, None, None, Some (str_of ex)))
   \<and> (\<forall>completion. qtype \<in> set question_types \<and> chapter_content \<noteq> []
          \<and> generate_completion e qtype chapter_content (sum_list (map count configs))
                (type_breakdown qtype configs dd bd) = Inr completion
          \<and> type_parser qtype (uuid4 e qtype) completion (type_breakdown qtype configs dd bd) = Inr []
        \<longrightarrow> generate_single_question_type_sync e qtype configs chapter_content chapter content_id
              objectives dd bd mc mx = (qtype, None, None, Some (no_valid_message qtype)))
   \<and> (qtype \<notin> set question_types
        \<longrightarrow> generate_single_question_type_sync e qtype configs chapter_content chapter content_id
              objectives dd bd mc mx
            = (qtype, None, None, Some (''Unknown question type: '' @ qtype)))"
proof (intro conjI allI impI)
  fix ex
  assume "generate_for_type e qtype chapter content_id objectives (sum_list (map count configs))
            dd bd chapter_content mc mx = Inl ex"
  then show "generate_single_question_type_sync e qtype configs chapter_content chapter content_id
              objectives dd bd mc mx = (qtype, None, None, Some (str_of ex))"
    by (rule sync_error)
next
  assume a: "qtype \<in> set question_types \<and> chapter_content = []"
  then have "generate_for_type e qtype chapter content_id objectives (sum_list (map count configs))
            dd bd chapter_content mc mx = Inl (ValueError (no_content_message chapter content_id))"
    by (simp add: generate_for_type_known run_generator_no_content)
  from sync_error [OF this]
  show "generate_single_question_type_sync e qtype configs chapter_content chapter content_id
              objectives dd bd mc mx
            = (qtype, None, None, Some (no_content_message chapter content_id))"
    by simp
next
  fix ex
  assume a: "qtype \<in> set question_types \<and> chapter_content \<noteq> []
          \<and> generate_completion e qtype chapter_content (sum_list (map count configs))
                (type_breakdown qtype configs dd bd) = Inl ex"
  then have "generate_for_type e qtype chapter content_id objectives (sum_list (map count configs))
            dd bd chapter_content mc mx = Inl ex"
    by (simp add: generate_for_type_known run_generator_completion_error type_breakdown_def)
  then show "generate_single_question_type_sync e qtype configs chapter_content chapter content_id
              objectives dd bd mc mx = (qtype, None, None, Some (str_of ex))"
    by (rule sync_error)
next
  fix completion
  assume a: "qtype \<in> set question_types \<and> chapter_content \<noteq> []
          \<and> generate_completion e qtype chapter_content (sum_list (map count configs))
                (type_breakdown qtype configs dd bd) = Inr completion
          \<and> type_parser qtype (uuid4 e qtype) completion (type_breakdown qtype configs dd bd) = Inr []"
  then have "generate_for_type e qtype chapter content_id objectives (sum_list (map count configs))
            dd bd chapter_content mc mx = Inl (ValueError (no_valid_message qtype))"
    unfolding type_breakdown_def
    by (simp add: generate_for_type_known run_generator_no_questions [where completion = completion])
  from sync_error [OF this]
  show "generate_single_question_type_sync e qtype configs chapter_content chapter content_id
              objectives dd bd mc mx = (qtype, None, None, Some (no_valid_message qtype))"
    by simp
next
  assume "qtype \<notin> set question_types"
  then have "generate_for_type e qtype chapter content_id objectives (sum_list (map count configs))
            dd bd chapter_content mc mx = Inl (ValueError (''Unknown question type: '' @ qtype))"
    by (rule generate_for_type_unknown)
  from sync_error [OF this]
  show "generate_single_question_type_sync e qtype configs chapter_content chapter content_id
              objectives dd bd mc mx
            = (qtype, None, None, Some (''Unknown question type: '' @ qtype))"
    by simp
qed

theorem pipeline_exceptions_become_error_results_witness:
  "generate_single_question_type_sync empty_completion_env ''mcq''
     [\<lparr> question_type = ''mcq'', difficulty = ''basic'', blooms_level = ''remember'', count = 2 \<rparr>]
     ''chapter text'' ''chapter'' ''book'' None [(''basic'', 1)] [(''remember'', 1)] 200 100000
   = (''mcq'', None, None, Some ''No valid MCQs could be parsed from LLM response'')"
proof -
  let ?configs = "[\<lparr> question_type = ''mcq'', difficulty = ''basic'', blooms_level = ''remember'',
                     count = 2 \<rparr>]"
  have h: "''mcq'' \<in> set question_types \<and> ''chapter text'' \<noteq> []
          \<and> generate_completion empty_completion_env ''mcq'' ''chapter text''
                (sum_list (map count ?configs))
                (type_breakdown ''mcq'' ?configs [(''basic'', 1)] [(''remember'', 1)]) = Inr []
          \<and> type_parser ''mcq'' (uuid4 empty_completion_env ''mcq'') []
                (type_breakdown ''mcq'' ?configs [(''basic'', 1)] [(''remember'', 1)]) = Inr []"
    by code_simp
  have m: "no_valid_message ''mcq'' = ''No valid MCQs could be parsed from LLM response''"
    by code_simp
  from pipeline_exceptions_become_error_results
         [of empty_completion_env "''mcq''" "''chapter''" "''book''" None ?configs
             "[(''basic'', 1)]" "[(''remember'', 1)]" "''chapter text''" 200 100000]
  have "\<forall>completion. ''mcq'' \<in> set question_types \<and> ''chapter text'' \<noteq> []
          \<and> generate_completion empty_completion_env ''mcq'' ''chapter text''
                (sum_list (map count ?configs))
                (type_breakdown ''mcq'' ?configs [(''basic'', 1)] [(''remember'', 1)]) = Inr completion
          \<and> type_parser ''mcq'' (uuid4 empty_completion_env ''mcq'') completion
                (type_breakdown ''mcq'' ?configs [(''basic'', 1)] [(''remember'', 1)]) = Inr []
        \<longrightarrow> generate_single_question_type_sync empty_completion_env ''mcq'' ?configs
              ''chapter text'' ''chapter'' ''book'' None [(''basic'', 1)] [(''remember'', 1)]
              200 100000
            = (''mcq'', None, None, Some (no_valid_message ''mcq''))"
    by blast
  with h show ?thesis unfolding m by blast
qed



subsection \<open>A pipeline error fails the request\<close>



section \<open>Properties of the per-type sequences\<close>

lemma add_share_Nil: "add_share [] k x = [(k, x)]"
  by (simp add: add_share_def)

lemma add_share_Cons:
  "add_share (p # ps) k x = (if fst p = k then (k, snd p + x) # ps else p # add_share ps k x)"
  by (auto simp: add_share_def)

lemma add_share_keys: "fst ` set (add_share m k x) = insert k (fst ` set m)"
  by (induction m) (auto simp: add_share_Nil add_share_Cons)

lemma add_share_distinct: "distinct (map fst m) \<Longrightarrow> distinct (map fst (add_share m k x))"
  by (induction m) (auto simp: add_share_Nil add_share_Cons add_share_keys)

lemma add_share_weight_sum: "weight_sum (add_share m k x) = weight_sum m + x"
  by (induction m) (auto simp: add_share_Nil add_share_Cons weight_sum_def)

lemma add_share_nonneg:
  "nonneg_weights m \<Longrightarrow> 0 \<le> x \<Longrightarrow> nonneg_weights (add_share m k x)"
  by (induction m) (auto simp: add_share_Nil add_share_Cons nonneg_weights_def)

lemma distributions_fold:
  assumes "n \<noteq> 0"
  shows "foldl (\<lambda>acc config.
                  bind acc (\<lambda>(difficulty_dist, blooms_dist).
                    if n = 0 then Inl ZeroDivisionError
                    else Inr (add_share difficulty_dist (difficulty config)
                                (of_int (count config) / of_int n),
                              add_share blooms_dist (blooms_level config)
                                (of_int (count config) / of_int n))))
           (Inr (dm, bm)) configs
         = Inr (shares difficulty n dm configs, shares blooms_level n bm configs)"
  using assms by (induction configs arbitrary: dm bm) (simp_all add: shares_def)

lemma distributions_for_type_eq:
  assumes "sum_list (map count configs) \<noteq> 0"
  shows "distributions_for_type configs
           = Inr (shares difficulty (sum_list (map count configs)) [] configs,
                  shares blooms_level (sum_list (map count configs)) [] configs)"
  unfolding distributions_for_type_def Let_def by (rule distributions_fold [OF assms])

lemma shares_keys: "fst ` set (shares label n m configs) = fst ` set m \<union> label ` set configs"
  by (induction configs arbitrary: m) (auto simp: shares_def add_share_keys)

lemma shares_distinct: "distinct (map fst m) \<Longrightarrow> distinct (map fst (shares label n m configs))"
  by (induction configs arbitrary: m) (simp_all add: shares_def add_share_distinct)

lemma shares_weight_sum:
  "weight_sum (shares label n m configs)
     = weight_sum m + sum_list (map (\<lambda>c. of_int (count c) / of_int n) configs)"
  by (induction configs arbitrary: m) (simp_all add: shares_def add_share_weight_sum)

lemma shares_nonneg:
  assumes "0 < n" "\<forall>c \<in> set configs. 0 \<le> count c" "nonneg_weights m"
  shows "nonneg_weights (shares label n m configs)"
  using assms(2,3)
proof (induction configs arbitrary: m)
  case Nil
  then show ?case by (simp add: shares_def)
next
  case (Cons c cs)
  have "0 \<le> (of_int (count c) / of_int n :: rat)" using Cons.prems(1) assms(1) by simp
  then have "nonneg_weights (add_share m (label c) (of_int (count c) / of_int n))"
    using Cons.prems(2) by (intro add_share_nonneg)
  from Cons.IH [OF _ this] Cons.prems(1) show ?case by (simp add: shares_def)
qed

lemma sum_shares:
  assumes "n \<noteq> 0" "n = sum_list (map count configs)"
  shows "sum_list (map (\<lambda>c. of_int (count c) / of_int n) configs) = (1 :: rat)"
proof -
  have "sum_list (map (\<lambda>c. of_int (count c) / of_int n) configs)
          = (of_int (sum_list (map count configs)) :: rat) / of_int n"
    by (induction configs) (simp_all add: add_divide_distrib)
  then show ?thesis using assms by simp
qed

lemma shares_normalised:
  assumes "sum_list (map count configs) \<noteq> 0"
  shows "weight_sum (shares label (sum_list (map count configs)) [] configs) = 1"
proof -
  have "weight_sum ([] :: proportion_map) = 0" by (simp add: weight_sum_def)
  then show ?thesis
    using sum_shares [OF assms refl] by (simp only: shares_weight_sum)
qed

lemma plain_label_split:
  assumes "plain_label d" "plain_label d'" "d @ ''_'' @ b = d' @ ''_'' @ b'"
  shows "d = d' \<and> b = b'"
proof -
  have t: "takeWhile (\<lambda>c. c \<noteq> CHR ''_'') (x @ ''_'' @ y) = x" if "plain_label x" for x y
    using that unfolding plain_label_def by (induction x) auto
  from assms(3) have "takeWhile (\<lambda>c. c \<noteq> CHR ''_'') (d @ ''_'' @ b)
                        = takeWhile (\<lambda>c. c \<noteq> CHR ''_'') (d' @ ''_'' @ b')"
    by simp
  then have "d = d'" by (simp only: t [OF assms(1)] t [OF assms(2)])
  with assms(3) show ?thesis by simp
qed

lemma combo_key_inject:
  assumes "plain_label d" "plain_label d'" "combo_key q d b = combo_key q d' b'"
  shows "d = d' \<and> b = b'"
  using assms plain_label_split [of d d' b b'] by (simp add: combo_key_def)

lemma single_type_keys_distinct:
  assumes "distinct (map fst dm)" "distinct (map fst bm)" "\<forall>d \<in> fst ` set dm. plain_label d"
  shows "distinct (map key_of (combos [(q, w)] dm bm))"
proof -
  have c: "map key_of (combos [(q, w)] dm' bm)
             = concat (map (\<lambda>d. map (\<lambda>b. combo_key q (fst d) (fst b)) bm) dm')" for dm'
    by (induction dm') (simp_all add: combos_def key_of_def split_beta)
  have row: "distinct (map (\<lambda>b. combo_key q d (fst b)) bm)" for d
  proof -
    have "inj_on (combo_key q d) (set (map fst bm))"
      by (auto simp: inj_on_def combo_key_def)
    with assms(2) have "distinct (map fst bm) \<and> inj_on (combo_key q d) (set (map fst bm))"
      by blast
    then have "distinct (map (combo_key q d) (map fst bm))"
      by (simp only: distinct_map)
    then show ?thesis by (simp only: map_map comp_def)
  qed
  have "distinct (concat (map (\<lambda>d. map (\<lambda>b. combo_key q (fst d) (fst b)) bm) dm'))"
    if "distinct (map fst dm')" "\<forall>d \<in> fst ` set dm'. plain_label d" for dm'
    using that
  proof (induction dm')
    case Nil
    then show ?case by simp
  next
    case (Cons d ds)
    have "set (map (\<lambda>b. combo_key q (fst d) (fst b)) bm)
            \<inter> set (concat (map (\<lambda>d. map (\<lambda>b. combo_key q (fst d) (fst b)) bm) ds)) = {}"
    proof (rule ccontr)
      assume "\<not> ?thesis"
      then obtain b d' b' where "d' \<in> set ds"
        and k: "combo_key q (fst d) (fst b) = combo_key q (fst d') (fst b')"
        by auto
      moreover have "plain_label (fst d)" "plain_label (fst d')"
        using Cons.prems(2) \<open>d' \<in> set ds\<close> by auto
      ultimately have "fst d = fst d'" using combo_key_inject by blast
      with \<open>d' \<in> set ds\<close> Cons.prems(1) show False by (auto simp: image_iff)
    qed
    with Cons row [of "fst d"] show ?case by simp
  qed
  with assms show ?thesis by (simp only: c)
qed

lemma create_question_sequence_length:
  "length (create_question_sequence bd) = sum_list (map (\<lambda>kv. nat (count (snd kv))) bd)"
  by (induction bd) (simp_all add: create_question_sequence_def)

lemma sum_list_nat:
  fixes f :: "'a \<Rightarrow> int"
  shows "\<forall>x \<in> set xs. 0 \<le> f x \<Longrightarrow> int (sum_list (map (\<lambda>x. nat (f x)) xs)) = sum_list (map f xs)"
  by (induction xs) auto

lemma calculate_entries:
  assumes "kv \<in> set (calculate_question_distribution t qd dd bd)"
  shows "0 < count (snd kv) \<and> difficulty (snd kv) \<in> fst ` set dd"
proof -
  have d: "distinct (map fst (awarded_distribution t qd dd bd))"
    by (simp add: awarded_distribution_keys fractional_distribution_keys_distinct)
  from assms obtain kv1 where kv1: "kv1 \<in> set (awarded_distribution t qd dd bd)"
      "0 < fi_count (snd kv1)" "snd kv = clean (snd kv1)"
    unfolding calculate_question_distribution_def remove_zero_map [OF d] by auto
  from kv1(1) have "\<exists>kv2 \<in> set (fractional_distribution t qd dd bd).
      kv1 = kv2 \<or> kv1 = (fst kv2, add_one (snd kv2))"
    unfolding awarded_distribution_map Let_def by (auto split: if_splits)
  then obtain kv2 where kv2: "kv2 \<in> set (fractional_distribution t qd dd bd)"
      and "kv1 = kv2 \<or> kv1 = (fst kv2, add_one (snd kv2))"
    by blast
  then have f: "fi_difficulty (snd kv1) = fi_difficulty (snd kv2)"
    by (auto simp: add_one_def)
  have "(fst kv2, snd kv2) \<in> set (fractional_distribution t qd dd bd)" using kv2 by simp
  from fractional_distribution_items [OF this]
  obtain c where c: "c \<in> set (combos qd dd bd)" "snd kv2 = item_of t c" by blast
  have "fi_difficulty (item_of t c) = fst (fst (snd c))"
    by (cases c) (auto simp: item_of_def)
  moreover have "fst (snd c) \<in> set dd" using c(1) by (simp add: combos_mem)
  ultimately have "fi_difficulty (snd kv1) \<in> fst ` set dd"
    using f c(2) by simp
  with kv1(2,3) show ?thesis by (simp add: clean_def)
qed

text \<open>
  The pipeline of a known question type with content and a completion: the completion is
  parsed against the breakdown computed from the total of the type's entries and the two
  distributions the pipeline receives.
\<close>

lemma pipeline_parses_against_type_breakdown:
  assumes "qtype \<in> set question_types" "chapter_content \<noteq> []"
      and "generate_completion e qtype chapter_content (sum_list (map count configs))
             (type_breakdown qtype configs dd bd) = Inr completion"
  shows "generate_for_type e qtype chapter content_id objectives (sum_list (map count configs))
           dd bd chapter_content mc mx
         = bind (type_parser qtype (uuid4 e qtype) completion (type_breakdown qtype configs dd bd))
             (\<lambda>questions.
                if questions = [] then Inl (ValueError (no_valid_message qtype))
                else bind (save_questions_to_file e questions
                             (generate_filename e chapter dd bd qtype objectives))
                       (\<lambda>_. Inr (questions, generate_filename e chapter dd bd qtype objectives)))"
  unfolding generate_for_type_known [OF assms(1)] run_generator_def Let_def
  using assms(2,3) by (simp add: type_breakdown_def)

lemma group_step:
  assumes "map_of tg q = (if filter (\<lambda>kv. question_type (snd kv) = q) xs = [] then None
                          else Some (map snd (filter (\<lambda>kv. question_type (snd kv) = q) xs)))"
  shows "map_of (let q_type = question_type (snd kv);
                     type_groups' = (if q_type \<in> set (map fst tg) then tg
                                     else AList.update q_type [] tg)
                 in AList.map_entry q_type (\<lambda>cs. cs @ [snd kv]) type_groups') q
           = (if filter (\<lambda>kv. question_type (snd kv) = q) (xs @ [kv]) = [] then None
              else Some (map snd (filter (\<lambda>kv. question_type (snd kv) = q) (xs @ [kv]))))"
proof (cases "question_type (snd kv) = q")
  case True
  have k: "q \<in> set (map fst tg) \<longleftrightarrow> map_of tg q \<noteq> None"
    by (simp add: map_of_eq_None_iff)
  show ?thesis
  proof (cases "filter (\<lambda>kv. question_type (snd kv) = q) xs = []")
    case e: True
    with assms k have "q \<notin> set (map fst tg)" by simp
    then show ?thesis using True e
      by (simp add: Let_def map_of_map_entry update_conv')
  next
    case ne: False
    with assms k have "q \<in> set (map fst tg)" by simp
    then show ?thesis using True ne assms
      by (simp add: Let_def map_of_map_entry)
  qed
next
  case False
  then show ?thesis using assms
    by (simp add: Let_def map_of_map_entry update_conv')
qed

lemma group_by_question_type_lookup:
  "map_of (group_by_question_type distr) q
     = (if filter (\<lambda>kv. question_type (snd kv) = q) distr = [] then None
        else Some (map snd (filter (\<lambda>kv. question_type (snd kv) = q) distr)))"
  unfolding group_by_question_type_def
proof (induction distr rule: rev_induct)
  case Nil
  then show ?case by simp
next
  case (snoc kv xs)
  show ?case
    unfolding foldl_append foldl_Cons foldl_Nil by (rule group_step [OF snoc])
qed

lemma sum_list_pos_int:
  fixes f :: "'a \<Rightarrow> int"
  shows "xs \<noteq> [] \<Longrightarrow> \<forall>x \<in> set xs. 0 < f x \<Longrightarrow> 0 < sum_list (map f xs)"
proof (induction xs)
  case Nil
  then show ?case by simp
next
  case (Cons x xs)
  then show ?case by (cases xs) (auto intro: add_pos_pos)
qed

lemma type_breakdown_sequence_length:
  assumes "configs \<noteq> []" "\<forall>c \<in> set configs. 0 < count c"
      and "\<forall>c \<in> set configs. plain_label (difficulty c)"
  shows "\<exists>dm bm. distributions_for_type configs = Inr (dm, bm)
           \<and> int (length (create_question_sequence (type_breakdown qtype configs dm bm)))
               = sum_list (map count configs)"
proof -
  let ?n = "sum_list (map count configs)"
  let ?dm = "shares difficulty ?n [] configs"
  let ?bm = "shares blooms_level ?n [] configs"
  have n: "0 < ?n" using assms(1,2) by (rule sum_list_pos_int)
  then have n0: "?n \<noteq> 0" by simp
  have d: "distributions_for_type configs = Inr (?dm, ?bm)"
    by (rule distributions_for_type_eq [OF n0])
  have nn: "\<forall>c \<in> set configs. 0 \<le> count c" using assms(2) by auto
  have e: "nonneg_weights ([] :: proportion_map)" by (simp add: nonneg_weights_def)
  have keys: "distinct (map key_of (combos [(qtype, 1)] ?dm ?bm))"
  proof (rule single_type_keys_distinct)
    show "distinct (map fst ?dm)" by (rule shares_distinct) simp
    show "distinct (map fst ?bm)" by (rule shares_distinct) simp
    show "\<forall>d \<in> fst ` set ?dm. plain_label d"
      using assms(3) by (auto simp: shares_keys)
  qed
  have "total_count (type_breakdown qtype configs ?dm ?bm) = ?n"
    unfolding type_breakdown_def
  proof (rule total_count_normalised)
    show "0 \<le> ?n" using n by simp
    show "nonneg_weights [(qtype, 1)]" by (simp add: nonneg_weights_def)
    show "nonneg_weights ?dm" by (rule shares_nonneg [OF n nn e])
    show "nonneg_weights ?bm" by (rule shares_nonneg [OF n nn e])
    show "weight_sum [(qtype, 1)] = 1" by (simp add: weight_sum_def)
    show "weight_sum ?dm = 1" by (rule shares_normalised [OF n0])
    show "weight_sum ?bm = 1" by (rule shares_normalised [OF n0])
    show "distinct (map key_of (combos [(qtype, 1)] ?dm ?bm))" by (rule keys)
  qed
  moreover have "\<forall>kv \<in> set (type_breakdown qtype configs ?dm ?bm). 0 \<le> count (snd kv)"
    unfolding type_breakdown_def using calculate_entries by fastforce
  ultimately have "int (length (create_question_sequence (type_breakdown qtype configs ?dm ?bm))) = ?n"
    by (simp add: create_question_sequence_length sum_list_nat total_count_def)
  with d show ?thesis by blast
qed

subsection \<open>The sequence of a question type and the global allocation\<close>

text \<open>
  C2 (as stated, refuted): for a request of 4 questions whose global allocation gives the
  true/false type the entries basic/remember, basic/apply, basic/analyze and
  intermediate/analyze, one question each, the true/false generator is called with the
  total 4 and the combined distributions of these entries and computes its own breakdown:
  its parser pairs the fourth block with (basic, analyze), not with (intermediate, analyze).
\<close>

theorem used_sequence_differs_from_restriction:
  "used_sequence reallocated_request ''tf''
     = Inr [(''basic'', ''remember''), (''basic'', ''apply''), (''basic'', ''analyze''),
            (''basic'', ''analyze'')]
   \<and> restricted_sequence reallocated_request ''tf''
     = [(''basic'', ''remember''), (''basic'', ''apply''), (''basic'', ''analyze''),
        (''intermediate'', ''analyze'')]"
  by code_simp

text \<open>
  C2 (amended): for every request whose difficulty labels contain no underscore and every
  question type, the sequence the type's parser pairs blocks against is the expansion of
  the breakdown that the type's generator computes from the type's total and combined
  difficulty and Bloom's distributions; it has the length of the global allocation
  restricted to the type, that is the type's total, and need not hold the same pairs.
\<close>

theorem used_sequence_has_restricted_length:
  assumes "\<forall>d \<in> fst ` set (req_difficulty_distribution r). plain_label d"
  shows "\<exists>sq. used_sequence r qtype = Inr sq \<and> length sq = length (restricted_sequence r qtype)"
proof (cases "filter (\<lambda>kv. question_type (snd kv) = qtype) (global_distribution r) = []")
  case True
  then show ?thesis
    by (simp add: used_sequence_def restricted_sequence_def group_by_question_type_lookup
          create_question_sequence_def)
next
  case False
  let ?fs = "filter (\<lambda>kv. question_type (snd kv) = qtype) (global_distribution r)"
  let ?configs = "map snd ?fs"
  have ent: "\<forall>kv \<in> set (global_distribution r).
               0 < count (snd kv) \<and> difficulty (snd kv) \<in> fst ` set (req_difficulty_distribution r)"
    unfolding global_distribution_def using calculate_entries by blast
  have c1: "?configs \<noteq> []" using False by simp
  have c2: "\<forall>c \<in> set ?configs. 0 < count c" using ent by auto
  have "\<forall>kv \<in> set (global_distribution r). plain_label (difficulty (snd kv))"
    using ent assms by blast
  then have c3: "\<forall>c \<in> set ?configs. plain_label (difficulty c)" by auto
  from type_breakdown_sequence_length [OF c1 c2 c3, of qtype]
  obtain dm bm where d: "distributions_for_type ?configs = Inr (dm, bm)"
    and l: "int (length (create_question_sequence (type_breakdown qtype ?configs dm bm)))
              = sum_list (map count ?configs)"
    by blast
  have u: "used_sequence r qtype = Inr (create_question_sequence (type_breakdown qtype ?configs dm bm))"
    using False by (simp add: used_sequence_def group_by_question_type_lookup d)
  have "int (length (restricted_sequence r qtype)) = sum_list (map (\<lambda>kv. count (snd kv)) ?fs)"
    unfolding restricted_sequence_def create_question_sequence_length
    using ent by (intro sum_list_nat) auto
  also have "\<dots> = sum_list (map count ?configs)" by (simp add: comp_def)
  finally have "int (length (restricted_sequence r qtype))
                  = int (length (create_question_sequence (type_breakdown qtype ?configs dm bm)))"
    using l by simp
  with u show ?thesis by simp
qed

theorem used_sequence_has_restricted_length_witness:
  "\<exists>sq. used_sequence reallocated_request ''tf'' = Inr sq
     \<and> length sq = length (restricted_sequence reallocated_request ''tf'')"
proof (rule used_sequence_has_restricted_length)
  show "\<forall>d \<in> fst ` set (req_difficulty_distribution reallocated_request). plain_label d"
    by (simp add: reallocated_request_def plain_label_def)
qed

end
